theory Spec2Isabelle
  imports Complex_Main "HOL-Library.Word" "HOL-Library.Multiset"
begin

section \<open>Values shared by the whole program\<close>

text \<open>
  Python \<open>bytes\<close> are lists of 8-bit words, Python \<open>str\<close> is \<open>string\<close>.  A bitstream is, as
  in the source, a \<open>str\<close> of the characters \<open>0\<close> and \<open>1\<close>.  Every exception the program can
  raise is a constructor of \<open>error\<close>; a function that can raise returns \<open>error + 'a\<close>.
\<close>

type_synonym byte = "8 word"
type_synonym bytes = "byte list"

datatype error =
    WrongPassword
  | MissingArgument
  | NotImplementedError
  | FileNotFoundError
  | BadGzipFile
  | UnicodeDecodeError
  | JSONDecodeError
  | KeyError
  | TypeError
  | BinasciiError
  | ValueError
  | CreationError
  | InterpretError
  | IndexError

definition FRAMES_DIR :: string where
  "FRAMES_DIR = ''./fvid_frames/''"

definition TEMPVIDEO :: string where
  "TEMPVIDEO = ''_temp.mp4''"

definition FRAMERATE :: string where
  "FRAMERATE = ''1''"

definition ascii :: "string \<Rightarrow> bytes" where
  \<comment> \<open>\<open>s.encode()\<close> of an ASCII literal\<close>
  "ascii s = map (\<lambda>c. of_nat (of_char c)) s"

definition SALT :: bytes where
  "SALT = ascii ''63929291bca3c602de64352a4d4bfe69''"

definition DEFAULT_KEY :: bytes where
  "DEFAULT_KEY = ascii (replicate 32 CHR '' '')"

section \<open>Bitstream converter (bitstring.BitArray / Bits)\<close>

definition bit_char :: "bool \<Rightarrow> char" where
  "bit_char b = (if b then CHR ''1'' else CHR ''0'')"

definition byte_bin :: "byte \<Rightarrow> string" where
  \<comment> \<open>the eight binary digits of one byte, most significant first\<close>
  "byte_bin b = map (\<lambda>i. bit_char (bit b i)) (rev [0..<8])"

definition bin_of_bytes :: "bytes \<Rightarrow> string" where
  \<comment> \<open>\<open>BitArray(bs).bin\<close>\<close>
  "bin_of_bytes bs = concat (map byte_bin bs)"

fun parse_bin :: "string \<Rightarrow> error + bool list" where
  \<comment> \<open>\<open>Bits(bin=s)\<close> for the strings the program builds, which hold binary digits only;
      any other character is taken as a CreationError\<close>
  "parse_bin [] = Inr []"
| "parse_bin (c # cs) =
     (if c = CHR ''0'' \<or> c = CHR ''1'' then
        (case parse_bin cs of Inl e \<Rightarrow> Inl e | Inr bs \<Rightarrow> Inr ((c = CHR ''1'') # bs))
      else Inl CreationError)"

definition byte_of_bits :: "bool list \<Rightarrow> byte" where
  \<comment> \<open>the byte whose binary digits, most significant first, are the given bits\<close>
  "byte_of_bits bs = of_nat (foldl (\<lambda>acc b. 2 * acc + of_bool b) (0::nat) bs)"

function group8 :: "bool list \<Rightarrow> byte list" where
  "group8 bs = (if length bs < 8 then [] else byte_of_bits (take 8 bs) # group8 (drop 8 bs))"
  by pat_completeness auto
termination
  by (relation "measure length") auto

definition bits_bytes :: "bool list \<Rightarrow> error + bytes" where
  \<comment> \<open>the \<open>.bytes\<close> property: only a whole number of bytes can be read\<close>
  "bits_bytes bs = (if length bs mod 8 \<noteq> 0 then Inl InterpretError else Inr (group8 bs))"

definition bytes_of_bin :: "string \<Rightarrow> error + bytes" where
  \<comment> \<open>\<open>Bits(bin=s).bytes\<close>\<close>
  "bytes_of_bin s = (case parse_bin s of Inl e \<Rightarrow> Inl e | Inr bs \<Rightarrow> bits_bytes bs)"

section \<open>Frames\<close>

text \<open>
  A frame written by the encoder is a PIL image of mode \<open>1\<close>: its size and its pixel
  values in row-major order.  A frame read by the decoder is an 8-bit RGB image, accessed
  through \<open>image.load()\<close> as \<open>px[x, y]\<close>.
\<close>

record frame =
  f_width :: nat
  f_height :: nat
  f_data :: "int list"

type_synonym pixel = "int \<times> int \<times> int"

record image =
  width :: nat
  height :: nat
  px :: "nat \<Rightarrow> nat \<Rightarrow> pixel"

definition py_int :: "char \<Rightarrow> error + int" where
  \<comment> \<open>\<open>int(c)\<close> of a one-character string\<close>
  "py_int c =
     (if c \<in> set ''0123456789''
      then Inr (int (of_char c) - int (of_char CHR ''0''))
      else Inl ValueError)"

fun map_int :: "string \<Rightarrow> error + int list" where
  \<comment> \<open>\<open>list(map(int, bitl))\<close>\<close>
  "map_int [] = Inr []"
| "map_int (c # cs) =
     (case py_int c of
        Inl e \<Rightarrow> Inl e
      | Inr v \<Rightarrow> (case map_int cs of Inl e \<Rightarrow> Inl e | Inr vs \<Rightarrow> Inr (v # vs)))"

definition Image_new :: "nat \<Rightarrow> nat \<Rightarrow> frame" where
  \<comment> \<open>\<open>Image.new("1", (width, height))\<close>: every pixel 0\<close>
  "Image_new w h = \<lparr>f_width = w, f_height = h, f_data = replicate (w * h) 0\<rparr>"

definition clip8 :: "int \<Rightarrow> int" where
  "clip8 v = (if v < 0 then 0 else if 255 < v then 255 else v)"

definition putdata :: "frame \<Rightarrow> int list \<Rightarrow> error + frame" where
  \<comment> \<open>\<open>image.putdata(vs)\<close>: fills from the upper left corner, row by row; more values
      than pixels is a TypeError, fewer leave the remaining pixels as they were\<close>
  "putdata im vs =
     (if f_width im * f_height im < length vs then Inl TypeError
      else Inr (im\<lparr>f_data := map clip8 vs @ drop (length vs) (f_data im)\<rparr>))"

definition encode_frame :: "nat \<Rightarrow> nat \<Rightarrow> string \<Rightarrow> error + frame" where
  \<comment> \<open>the body of the loop of \<open>make_image_sequence\<close>, up to \<open>image.save\<close>\<close>
  "encode_frame w h bitl =
     (case map_int bitl of
        Inl e \<Rightarrow> Inl e
      | Inr image_bits \<Rightarrow> putdata (Image_new w h) image_bits)"

definition white :: pixel where "white = (255, 255, 255)"
definition black :: pixel where "black = (0, 0, 0)"

definition transcoded :: "frame \<Rightarrow> image" where
  \<comment> \<open>The frame as the decoder gets it back from a lossless transcoder: the 1-bit PNG
      stores a set bit for every non-zero pixel, which comes back as pure white, and a
      clear bit, which comes back as pure black.\<close>
  "transcoded fr =
     \<lparr>width = f_width fr, height = f_height fr,
      px = (\<lambda>x y. if f_data fr ! (y * f_width fr + x) \<noteq> 0 then white else black)\<rparr>"

definition closer_to_white :: "int \<Rightarrow> bool" where
  \<comment> \<open>a channel value is nearer to 255 than to 0\<close>
  "closer_to_white c = (\<bar>c - 255\<bar> < \<bar>c - 0\<bar>)"

definition pixel_bin_rep :: "pixel \<Rightarrow> char" where
  "pixel_bin_rep pixel =
     (case pixel of (p0, p1, p2) \<Rightarrow>
        if \<bar>p0 - 255\<bar> < \<bar>p0 - 0\<bar> \<and> \<bar>p1 - 255\<bar> < \<bar>p1 - 0\<bar> \<and> \<bar>p2 - 255\<bar> < \<bar>p2 - 0\<bar>
        then CHR ''1'' else CHR ''0'')"

definition get_bits_from_image :: "(image \<Rightarrow> string) option \<Rightarrow> image \<Rightarrow> string" where
  \<comment> \<open>The first argument is the import of \<open>fvid_cython\<close>: \<open>None\<close> when the import failed
      (\<open>use_cython = False\<close>), \<open>Some cy_gbfi\<close> otherwise.\<close>
  "get_bits_from_image cy im =
     (case cy of
        Some cy_gbfi \<Rightarrow> cy_gbfi im
      | None \<Rightarrow>
          foldl (\<lambda>bits y. foldl (\<lambda>bits x. bits @ [pixel_bin_rep (px im x y)]) bits [0..<width im])
            [] [0..<height im])"

section \<open>Sequencer\<close>

function py_range :: "nat \<Rightarrow> nat \<Rightarrow> nat \<Rightarrow> nat list" where
  \<comment> \<open>\<open>range(i, stop, step)\<close> for a positive step\<close>
  "py_range i stop step =
     (if step = 0 \<or> stop \<le> i then [] else i # py_range (i + step) stop step)"
  by pat_completeness auto
termination
  by (relation "measure (\<lambda>(i, stop, step). stop - i)") auto

declare py_range.simps [simp del]
declare group8.simps [simp del]

definition py_slice :: "'a list \<Rightarrow> nat \<Rightarrow> nat \<Rightarrow> 'a list" where
  \<comment> \<open>\<open>s[a:b]\<close> for non-negative \<open>a\<close> and \<open>b\<close>\<close>
  "py_slice s a b = take (b - a) (drop a s)"

definition split_string_by_n :: "string \<Rightarrow> nat \<Rightarrow> error + string list" where
  \<comment> \<open>\<open>range\<close> raises ValueError for a step of zero\<close>
  "split_string_by_n bitstring n =
     (if n = 0 then Inl ValueError
      else Inr (map (\<lambda>i. py_slice bitstring i (i + n)) (py_range 0 (length bitstring) n)))"

function str_nat :: "nat \<Rightarrow> string" where
  \<comment> \<open>\<open>str(n)\<close>: the decimal digits of \<open>n\<close>\<close>
  "str_nat n =
     (if n < 10 then [char_of (48 + n)] else str_nat (n div 10) @ [char_of (48 + n mod 10)])"
  by pat_completeness auto
termination
  by (relation "measure id") auto

declare str_nat.simps [simp del]

definition encoded_frame_path :: "nat \<Rightarrow> string" where
  "encoded_frame_path index = FRAMES_DIR @ ''encoded_frames_'' @ str_nat index @ ''.png''"

function save_frames ::
  "nat \<Rightarrow> nat \<Rightarrow> string list \<Rightarrow> nat \<Rightarrow> (string \<times> frame) list \<times> error option" where
  \<comment> \<open>The loop of \<open>make_image_sequence\<close>: each round pops the last element of the
      (reversed) list, builds its image and saves it under the current index.  The result
      is the list of files saved, in the order they were saved, and the exception that
      ended the loop, if any.\<close>
  "save_frames w h bitlist index =
     (if bitlist = [] then ([], None)
      else
        (case encode_frame w h (last bitlist) of
           Inl e \<Rightarrow> ([], Some e)
         | Inr im \<Rightarrow>
             (case save_frames w h (butlast bitlist) (index + 1) of
                (saved, err) \<Rightarrow> ((encoded_frame_path index, im) # saved, err))))"
  by pat_completeness auto
termination
  by (relation "measure (\<lambda>(w, h, bitlist, index). length bitlist)") auto

declare save_frames.simps [simp del]

definition make_image_sequence ::
  "string \<Rightarrow> nat \<times> nat \<Rightarrow> (string \<times> frame) list \<times> error option" where
  "make_image_sequence bitstring resolution =
     (case resolution of (w, h) \<Rightarrow>
        let set_size = w * h in
        (case split_string_by_n bitstring set_size of
           Inl e \<Rightarrow> ([], Some e)
         | Inr bitlist \<Rightarrow>
             if bitlist = [] then ([], Some IndexError)
             else
               let bitlist = bitlist[length bitlist - 1 :=
                     last bitlist @ replicate (set_size - length (last bitlist)) CHR ''0''];
                   bitlist = rev bitlist
               in save_frames w h bitlist 1))"

section \<open>The world outside the program\<close>

text \<open>
  The decoder reads the frames the transcoder has written to the frames directory.  What
  it sees of that directory is the list \<open>glob.glob\<close> returns: for every file
  \<open>decoded_frames_<index>.png\<close> its index, its modification time and the image in it.
\<close>

record frame_file =
  ff_index :: nat
  ff_mtime :: real
  ff_image :: image

datatype event = Prompt | Kdf | CipherNew | System string

text \<open>
  The state the program reads and changes: the files by path, the frames directory (the
  frames the encoder saved, in the order it saved them, and the listing the decoder
  globs), the clock, the line the user types at the password prompt, and a trace of the
  calls whose order matters: the password prompt, the key derivation, the construction
  of the decoder's cipher and every shell command.
\<close>

record world =
  files :: "string \<rightharpoonup> bytes"
  encoded_frames :: "(string \<times> frame) list"
  decoded_frames :: "frame_file list"
  clock :: nat
  tty :: string
  trace :: "event list"

datatype json =
    JNull
  | JBool bool
  | JInt int
  | JFloat real
  | JStr string
  | JArr "json list"
  | JObj "(string \<times> json) list"

text \<open>
  The libraries the program calls are parameters of the model.  A library call that can
  fail returns \<open>None\<close> where it raises its own exception.
  \<^item> \<open>pbkdf2_hmac salt iterations length password\<close>: \<open>PBKDF2HMAC(SHA512, ...).derive\<close>;
  \<^item> \<open>eax_encrypt_and_digest key nonce plaintext\<close>, \<open>eax_decrypt key nonce ciphertext\<close>
    and \<open>eax_verify key nonce ciphertext tag\<close>: AES in EAX mode; \<open>eax_verify\<close> is whether
    \<open>cipher.verify(tag)\<close> returns after \<open>cipher.decrypt(ciphertext)\<close>;
  \<^item> \<open>gzip_compress mtime data\<close> (the gzip header holds the time of writing) and
    \<open>gzip_decompress\<close>;
  \<^item> \<open>json_dumps\<close>, \<open>json_loads\<close>;
  \<^item> \<open>b64encode\<close> (\<open>base64.b64encode(x).decode("utf-8")\<close>) and \<open>b64decode\<close>;
  \<^item> \<open>utf8_encode\<close>, \<open>utf8_decode\<close>;
  \<^item> \<open>shell command\<close>: what running a command through \<open>os.system\<close> does to the world.
\<close>

record lib =
  pbkdf2_hmac :: "bytes \<Rightarrow> nat \<Rightarrow> nat \<Rightarrow> bytes \<Rightarrow> bytes"
  eax_encrypt_and_digest :: "bytes \<Rightarrow> bytes \<Rightarrow> bytes \<Rightarrow> bytes \<times> bytes"
  eax_decrypt :: "bytes \<Rightarrow> bytes \<Rightarrow> bytes \<Rightarrow> bytes"
  eax_verify :: "bytes \<Rightarrow> bytes \<Rightarrow> bytes \<Rightarrow> bytes \<Rightarrow> bool"
  gzip_compress :: "nat \<Rightarrow> bytes \<Rightarrow> bytes"
  gzip_decompress :: "bytes \<Rightarrow> bytes option"
  json_dumps :: "json \<Rightarrow> string"
  json_loads :: "string \<Rightarrow> json option"
  b64encode :: "bytes \<Rightarrow> string"
  b64decode :: "string \<Rightarrow> bytes option"
  utf8_encode :: "string \<Rightarrow> bytes"
  utf8_decode :: "bytes \<Rightarrow> string option"
  shell :: "string \<Rightarrow> world \<Rightarrow> world"

definition os_system :: "lib \<Rightarrow> string \<Rightarrow> world \<Rightarrow> world" where
  "os_system L command w = (shell L command w)\<lparr>trace := trace w @ [System command]\<rparr>"

definition aes_key_ok :: "bytes \<Rightarrow> bool" where
  \<comment> \<open>\<open>AES.new\<close> raises ValueError unless the key has 16, 24 or 32 bytes\<close>
  "aes_key_ok key = (length key = 16 \<or> length key = 24 \<or> length key = 32)"

section \<open>Key derivation\<close>

definition get_password :: "lib \<Rightarrow> string option \<Rightarrow> world \<Rightarrow> bytes \<times> world" where
  \<comment> \<open>\<open>None\<close> is Python's \<open>None\<close>: the password is then read from the terminal\<close>
  "get_password L password_provided w =
     (if password_provided = Some ''default'' then (DEFAULT_KEY, w)
      else
        (case (case password_provided of
                 None \<Rightarrow> (tty w, w\<lparr>trace := trace w @ [Prompt]\<rparr>)
               | Some p \<Rightarrow> (p, w)) of
           (password_provided, w1) \<Rightarrow>
             let password = utf8_encode L password_provided;
                 key = pbkdf2_hmac L SALT 100000 32 password
             in (key, w1\<lparr>trace := trace w1 @ [Kdf]\<rparr>)))"

section \<open>Container codec\<close>

definition basename :: "string \<Rightarrow> string" where
  \<comment> \<open>\<open>os.path.basename\<close>: what follows the last slash\<close>
  "basename path = rev (takeWhile (\<lambda>c. c \<noteq> CHR ''/'') (rev path))"

definition get_bits_from_file :: "lib \<Rightarrow> string \<Rightarrow> bytes \<Rightarrow> world \<Rightarrow> error + string" where
  "get_bits_from_file L filepath key w =
     (case files w filepath of
        None \<Rightarrow> Inl FileNotFoundError
      | Some content \<Rightarrow>
          if \<not> aes_key_ok key then Inl ValueError
          else
            (case eax_encrypt_and_digest L key SALT content of
               (ciphertext, tag) \<Rightarrow>
                 let filename = basename filepath;
                     data_bytes = utf8_encode L (json_dumps L (JObj
                       [(''tag'', JStr (b64encode L tag)),
                        (''data'', JStr (b64encode L ciphertext)),
                        (''filename'', JStr filepath)]));
                     zip = gzip_compress L (clock w) data_bytes
                 in Inr (bin_of_bytes zip)))"

definition py_getitem :: "json \<Rightarrow> string \<Rightarrow> error + json" where
  \<comment> \<open>\<open>data[key]\<close> for a string key: only a dict can be indexed by it\<close>
  "py_getitem data k =
     (case data of
        JObj items \<Rightarrow> (case map_of items k of None \<Rightarrow> Inl KeyError | Some v \<Rightarrow> Inr v)
      | _ \<Rightarrow> Inl TypeError)"

definition py_b64decode :: "lib \<Rightarrow> json \<Rightarrow> error + bytes" where
  \<comment> \<open>\<open>base64.b64decode(v)\<close>: a TypeError unless \<open>v\<close> is a string\<close>
  "py_b64decode L v =
     (case v of
        JStr s \<Rightarrow> (case b64decode L s of None \<Rightarrow> Inl BinasciiError | Some bs \<Rightarrow> Inr bs)
      | _ \<Rightarrow> Inl TypeError)"

definition parse_container :: "lib \<Rightarrow> string \<Rightarrow> error + (bytes \<times> bytes \<times> json)" where
  \<comment> \<open>\<open>save_bits_to_file\<close> up to \<open>filename = data["filename"]\<close>: the tag, the ciphertext
      and the filename field\<close>
  "parse_container L bits =
     (case bytes_of_bin bits of
        Inl e \<Rightarrow> Inl e
      | Inr raw \<Rightarrow>
     (case gzip_decompress L raw of
        None \<Rightarrow> Inl BadGzipFile
      | Some bitstring \<Rightarrow>
     (case utf8_decode L bitstring of
        None \<Rightarrow> Inl UnicodeDecodeError
      | Some text \<Rightarrow>
     (case json_loads L text of
        None \<Rightarrow> Inl JSONDecodeError
      | Some data \<Rightarrow>
     (case py_getitem data ''tag'' of
        Inl e \<Rightarrow> Inl e
      | Inr t \<Rightarrow>
     (case py_b64decode L t of
        Inl e \<Rightarrow> Inl e
      | Inr tag \<Rightarrow>
     (case py_getitem data ''data'' of
        Inl e \<Rightarrow> Inl e
      | Inr d \<Rightarrow>
     (case py_b64decode L d of
        Inl e \<Rightarrow> Inl e
      | Inr ciphertext \<Rightarrow>
     (case py_getitem data ''filename'' of
        Inl e \<Rightarrow> Inl e
      | Inr filename \<Rightarrow> Inr (tag, ciphertext, filename))))))))))"

definition open_wb :: "json \<Rightarrow> bytes \<Rightarrow> world \<Rightarrow> (error + unit) \<times> world" where
  \<comment> \<open>\<open>with open(filepath, "wb") as f: bitstring.tofile(f)\<close>.  Only a string is a path;
      the model has no open file descriptor an integer could name.\<close>
  "open_wb filepath content w =
     (case filepath of
        JStr path \<Rightarrow> (Inr (), w\<lparr>files := (files w)(path \<mapsto> content)\<rparr>)
      | _ \<Rightarrow> (Inl TypeError, w))"

definition save_bits_to_file ::
  "lib \<Rightarrow> string option \<Rightarrow> string \<Rightarrow> bytes \<Rightarrow> world \<Rightarrow> (error + unit) \<times> world" where
  "save_bits_to_file L file_path bits key w =
     (case parse_container L bits of
        Inl e \<Rightarrow> (Inl e, w)
      | Inr (tag, ciphertext, filename) \<Rightarrow>
          if \<not> aes_key_ok key then (Inl ValueError, w)
          else
            let w1 = w\<lparr>trace := trace w @ [CipherNew]\<rparr>;
                bitstring = eax_decrypt L key SALT ciphertext
            in
              if \<not> eax_verify L key SALT ciphertext tag then (Inl WrongPassword, w1)
              else
                let filepath = (case file_path of None \<Rightarrow> filename | Some p \<Rightarrow> JStr p)
                in open_wb filepath bitstring w1)"

section \<open>Decoding a video\<close>

definition reencode_command :: "string \<Rightarrow> string \<Rightarrow> string" where
  "reencode_command video_filepath framerate =
     ''ffmpeg -i '' @ video_filepath @ '' -c:v libx264rgb -filter:v fps=fps='' @ framerate
       @ '' '' @ TEMPVIDEO"

definition extract_command :: string where
  "extract_command = ''ffmpeg -i '' @ TEMPVIDEO @ '' ./fvid_frames/decoded_frames_%d.png''"

definition get_bits_from_video ::
  "lib \<Rightarrow> (image \<Rightarrow> string) option \<Rightarrow> string \<Rightarrow> string \<Rightarrow> world \<Rightarrow> (error + string) \<times> world" where
  \<comment> \<open>The second string is the global \<open>FRAMERATE\<close> at the time of the call.
      \<open>os.remove\<close> raises when the first command left no temporary video;
      \<open>sorted\<close> is stable.\<close>
  "get_bits_from_video L cy framerate video_filepath w =
     (let w1 = os_system L (reencode_command video_filepath framerate) w;
          w2 = os_system L extract_command w1
      in
        if files w2 TEMPVIDEO = None then (Inl FileNotFoundError, w2)
        else
          let w3 = w2\<lparr>files := (files w2)(TEMPVIDEO := None)\<rparr>;
              image_sequence = map ff_image (sort_key ff_mtime (decoded_frames w3));
              sequence_length = length image_sequence
          in (Inr (foldl (\<lambda>bits index. bits @ get_bits_from_image cy (image_sequence ! index))
                     [] [0..<sequence_length]), w3))"

section \<open>The command line\<close>

definition mux_command :: "string \<Rightarrow> string \<Rightarrow> string" where
  "mux_command framerate outputfile =
     ''ffmpeg -r '' @ framerate
       @ '' -i ./fvid_frames/encoded_frames_%d.png -c:v libx264rgb '' @ outputfile"

definition make_video :: "lib \<Rightarrow> string option \<Rightarrow> string \<Rightarrow> world \<Rightarrow> world" where
  "make_video L output_filepath framerate w =
     (let outputfile = (case output_filepath of None \<Rightarrow> ''file.mp4'' | Some p \<Rightarrow> p)
      in os_system L (mux_command framerate outputfile) w)"

definition cleanup :: "world \<Rightarrow> world" where
  \<comment> \<open>\<open>shutil.rmtree(FRAMES_DIR)\<close>\<close>
  "cleanup w = w\<lparr>encoded_frames := [], decoded_frames := []\<rparr>"

text \<open>
  The \<open>--password\<close> option is declared with \<open>nargs="?"\<close> and \<open>default="default"\<close>: left
  out, \<open>args.password\<close> is the default; given without a value, it is \<open>None\<close>; given with a
  value, it is the value.
\<close>

datatype password_option = Omitted | NoValue | Value string

definition parse_password :: "password_option \<Rightarrow> string option" where
  "parse_password opt =
     (case opt of Omitted \<Rightarrow> Some ''default'' | NoValue \<Rightarrow> None | Value s \<Rightarrow> Some s)"

record args =
  a_encode :: bool
  a_decode :: bool
  a_input :: string
  a_output :: "string option"
  a_framerate :: string
  a_password :: password_option

definition isdigit :: "string \<Rightarrow> bool" where
  \<comment> \<open>\<open>str.isdigit\<close>: not empty, and decimal digits only\<close>
  "isdigit s = (s \<noteq> [] \<and> list_all (\<lambda>c. c \<in> set ''0123456789'') s)"

definition framerate_rejected :: "string \<Rightarrow> bool" where
  \<comment> \<open>the condition under which \<open>main\<close> raises NotImplementedError\<close>
  "framerate_rejected framerate =
     ((\<not> isdigit framerate \<and> CHR ''/'' \<notin> set framerate)
      \<or> list_all (\<lambda>x. x \<in> set framerate) [CHR ''-'', CHR ''/''])"

definition truthy :: "string option \<Rightarrow> string option" where
  \<comment> \<open>\<open>x if x else None\<close>: the empty string counts as no value\<close>
  "truthy x = (case x of None \<Rightarrow> None | Some s \<Rightarrow> if s = [] then None else Some s)"

text \<open>
  \<open>main\<close> after \<open>parser.parse_args()\<close>.  \<open>setup()\<close> only creates the frames directory, which
  the world always has; the global \<open>FRAMERATE\<close> is \<open>args.framerate\<close> from the assignment
  on and is passed to \<open>get_bits_from_video\<close> as an argument; \<open>cleanup()\<close> is reached
  only when nothing was raised.
\<close>

definition main ::
  "lib \<Rightarrow> (image \<Rightarrow> string) option \<Rightarrow> args \<Rightarrow> world \<Rightarrow> (error + unit) \<times> world" where
  "main L cy a w =
     (if \<not> a_decode a \<and> \<not> a_encode a then (Inl MissingArgument, w)
      else
        (case get_password L (parse_password (a_password a)) w of
           (key, w1) \<Rightarrow>
             if a_decode a then
               (case get_bits_from_video L cy (a_framerate a) (a_input a) w1 of
                  (Inl e, w2) \<Rightarrow> (Inl e, w2)
                | (Inr bits, w2) \<Rightarrow>
                    (case save_bits_to_file L (truthy (a_output a)) bits key w2 of
                       (Inl e, w3) \<Rightarrow> (Inl e, w3)
                     | (Inr u, w3) \<Rightarrow> (Inr (), cleanup w3)))
             else if framerate_rejected (a_framerate a) then (Inl NotImplementedError, w1)
             else
               (case get_bits_from_file L (a_input a) key w1 of
                  Inl e \<Rightarrow> (Inl e, w1)
                | Inr bits \<Rightarrow>
                    (case make_image_sequence bits (1920, 1080) of
                       (saved, err) \<Rightarrow>
                         let w2 = w1\<lparr>encoded_frames := encoded_frames w1 @ saved\<rparr>
                         in (case err of
                               Some e \<Rightarrow> (Inl e, w2)
                             | None \<Rightarrow>
                                 (Inr (), cleanup (make_video L (truthy (a_output a))
                                                    (a_framerate a) w2)))))))"

section \<open>Notions used in the statements\<close>

definition bit_value :: "char \<Rightarrow> int" where
  \<comment> \<open>the pixel value of a binary digit\<close>
  "bit_value c = (if c = CHR ''1'' then 1 else 0)"

definition frame_count :: "nat \<Rightarrow> nat \<Rightarrow> nat" where
  "frame_count L n = (L + n - 1) div n"

definition chunk :: "string \<Rightarrow> nat \<Rightarrow> nat \<Rightarrow> string" where
  \<comment> \<open>the slice of the bitstream from \<open>i * n\<close> up to \<open>min ((i + 1) * n) L\<close>, counting
      chunks from 0\<close>
  "chunk bits n i = py_slice bits (i * n) (min ((i + 1) * n) (length bits))"

definition padded :: "string \<Rightarrow> nat \<Rightarrow> nat \<Rightarrow> string" where
  \<comment> \<open>a chunk extended with trailing zero bits to \<open>n\<close> bits\<close>
  "padded bits n i = chunk bits n i @ replicate (n - length (chunk bits n i)) CHR ''0''"

definition container_record :: "string \<Rightarrow> string \<Rightarrow> string \<Rightarrow> json" where
  \<comment> \<open>a tagged record with the three fields as strings\<close>
  "container_record t d f = JObj [(''tag'', JStr t), (''data'', JStr d), (''filename'', JStr f)]"

definition lib_ok :: "lib \<Rightarrow> bool" where
  \<comment> \<open>What the program relies on from its libraries: decryption under the key and nonce
      of the encryption gives the plaintext back and the tag verifies; decompression,
      decoding and parsing invert compression, encoding and serialisation (of a record
      of strings); the derived key has the length asked for.\<close>
  "lib_ok L =
     ((\<forall>key nonce pt.
         eax_decrypt L key nonce (fst (eax_encrypt_and_digest L key nonce pt)) = pt
         \<and> eax_verify L key nonce (fst (eax_encrypt_and_digest L key nonce pt))
              (snd (eax_encrypt_and_digest L key nonce pt)))
      \<and> (\<forall>t x. gzip_decompress L (gzip_compress L t x) = Some x)
      \<and> (\<forall>s. utf8_decode L (utf8_encode L s) = Some s)
      \<and> (\<forall>t d f. json_loads L (json_dumps L (container_record t d f))
                     = Some (container_record t d f))
      \<and> (\<forall>b. b64decode L (b64encode L b) = Some b)
      \<and> (\<forall>salt iterations len pw. length (pbkdf2_hmac L salt iterations len pw) = len))"

definition derived_key :: "lib \<Rightarrow> string \<Rightarrow> bytes" where
  \<comment> \<open>the key \<open>get_password\<close> returns for a password given on the command line\<close>
  "derived_key L P =
     (if P = ''default'' then DEFAULT_KEY else pbkdf2_hmac L SALT 100000 32 (utf8_encode L P))"

definition field_is_string :: "json \<Rightarrow> string \<Rightarrow> bool" where
  \<comment> \<open>the record has the field, and the field is a string\<close>
  "field_is_string data k = (case py_getitem data k of Inr (JStr s) \<Rightarrow> True | _ \<Rightarrow> False)"

definition field_present :: "json \<Rightarrow> string \<Rightarrow> bool" where
  "field_present data k = (case py_getitem data k of Inr v \<Rightarrow> True | Inl e \<Rightarrow> False)"

definition malformed_container :: "lib \<Rightarrow> bytes \<Rightarrow> bool" where
  \<comment> \<open>Decompression fails, or the record cannot be parsed, or one of its three fields
      is missing or is not a string.\<close>
  "malformed_container L raw =
     (case gzip_decompress L raw of
        None \<Rightarrow> True
      | Some b \<Rightarrow>
     (case utf8_decode L b of
        None \<Rightarrow> True
      | Some text \<Rightarrow>
     (case json_loads L text of
        None \<Rightarrow> True
      | Some data \<Rightarrow>
          \<not> (field_is_string data ''tag'' \<and> field_is_string data ''data''
             \<and> field_is_string data ''filename''))))"

definition unreadable_container :: "lib \<Rightarrow> bytes \<Rightarrow> bool" where
  \<comment> \<open>As \<open>malformed_container\<close>, but of the filename field only its presence counts.\<close>
  "unreadable_container L raw =
     (case gzip_decompress L raw of
        None \<Rightarrow> True
      | Some b \<Rightarrow>
     (case utf8_decode L b of
        None \<Rightarrow> True
      | Some text \<Rightarrow>
     (case json_loads L text of
        None \<Rightarrow> True
      | Some data \<Rightarrow>
          \<not> (field_is_string data ''tag'' \<and> field_is_string data ''data''
             \<and> field_present data ''filename''))))"

subsection \<open>A small instance of the libraries\<close>

text \<open>
  A concrete library that meets \<open>lib_ok\<close>, on which the theorems are run: strings are
  written with their length in front, bytes are shifted by one, the tag is the key.
\<close>

definition toy_enc :: "string \<Rightarrow> string" where
  "toy_enc s = replicate (length s) CHR ''x'' @ CHR ''|'' # s"

definition toy_dec :: "string \<Rightarrow> string \<times> string" where
  "toy_dec t =
     (let n = length (takeWhile (\<lambda>c. c = CHR ''x'') t); r = drop (Suc n) t
      in (take n r, drop n r))"

definition toy_json_dumps :: "json \<Rightarrow> string" where
  "toy_json_dumps v =
     (case v of
        JObj items \<Rightarrow>
          concat (map (\<lambda>(k, x). toy_enc k @ (case x of JStr s \<Rightarrow> toy_enc s | _ \<Rightarrow> toy_enc []))
                    items)
      | _ \<Rightarrow> [])"

definition toy_json_loads :: "string \<Rightarrow> json option" where
  "toy_json_loads t =
     (case toy_dec t of (k1, r1) \<Rightarrow>
      case toy_dec r1 of (v1, r2) \<Rightarrow>
      case toy_dec r2 of (k2, r3) \<Rightarrow>
      case toy_dec r3 of (v2, r4) \<Rightarrow>
      case toy_dec r4 of (k3, r5) \<Rightarrow>
      case toy_dec r5 of (v3, r6) \<Rightarrow>
        Some (JObj [(k1, JStr v1), (k2, JStr v2), (k3, JStr v3)]))"

definition toy_gunzip :: "bytes \<Rightarrow> bytes option" where
  "toy_gunzip bs =
     (case bs of
        a # b # rest \<Rightarrow> if a = 31 \<and> b = 139 then Some rest else None
      | _ \<Rightarrow> None)"

definition toy_lib :: lib where
  "toy_lib =
     \<lparr>pbkdf2_hmac = (\<lambda>salt iterations len pw. take len (pw @ replicate len 0)),
      eax_encrypt_and_digest = (\<lambda>key nonce pt. (map (\<lambda>b. b + 1) pt, key)),
      eax_decrypt = (\<lambda>key nonce ct. map (\<lambda>b. b - 1) ct),
      eax_verify = (\<lambda>key nonce ct tag. tag = key),
      gzip_compress = (\<lambda>t x. 31 # 139 # x),
      gzip_decompress = toy_gunzip,
      json_dumps = toy_json_dumps,
      json_loads = toy_json_loads,
      b64encode = map (\<lambda>b. char_of (unat b)),
      b64decode = (\<lambda>s. Some (ascii s)),
      utf8_encode = ascii,
      utf8_decode = (\<lambda>bs. Some (map (\<lambda>b. char_of (unat b)) bs)),
      shell = (\<lambda>command w. w)\<rparr>"

definition world0 :: world where
  \<comment> \<open>a world with no file, no frame and an empty trace\<close>
  "world0 =
     \<lparr>files = Map.empty, encoded_frames = [], decoded_frames = [], clock = 0, tty = [],
      trace = []\<rparr>"

text \<open>
  The small library with a parser that returns a record whose filename is a number.
\<close>

definition mistyped_lib :: lib where
  "mistyped_lib =
     toy_lib\<lparr>json_loads := (\<lambda>text. Some (JObj
        [(''tag'', JStr (replicate 32 CHR '' '')), (''data'', JStr []), (''filename'', JInt 5)]))\<rparr>"

subsection \<open>Small frames directories\<close>

definition white_image :: image where
  "white_image = \<lparr>width = 1, height = 1, px = (\<lambda>x y. white)\<rparr>"

definition black_image :: image where
  "black_image = \<lparr>width = 1, height = 1, px = (\<lambda>x y. black)\<rparr>"

definition demux_world :: "frame_file list \<Rightarrow> world" where
  "demux_world fs = world0\<lparr>files := [TEMPVIDEO \<mapsto> []], decoded_frames := fs\<rparr>"

section \<open>Bitstream converter: bytes to bits and back\<close>

lemma foldl_bits:
  "foldl (\<lambda>acc b. 2 * acc + of_bool b) (a::nat) (map (bit w) (rev [0..<n]))
     = a * 2 ^ n + take_bit n w"
proof (induction n arbitrary: a)
  case 0 show ?case by simp
next
  case (Suc n)
  have "foldl (\<lambda>acc b. 2 * acc + of_bool b) a (map (bit w) (rev [0..<Suc n]))
      = (2 * a + of_bool (bit w n)) * 2 ^ n + take_bit n w"
    by (simp add: Suc.IH)
  also have "\<dots> = a * 2 ^ Suc n + take_bit (Suc n) w"
    by (simp add: take_bit_Suc_from_most algebra_simps)
  finally show ?case .
qed

lemma byte_of_bits_bits: "byte_of_bits (map (bit (w::byte)) (rev [0..<8])) = w"
proof -
  have eq: "map (bit w) (rev [0..<8]) = map (bit (unat w)) (rev [0..<8])"
    by (simp add: bit_unsigned_iff)
  have "byte_of_bits (map (bit w) (rev [0..<8])) = of_nat (take_bit 8 (unat w))"
    unfolding byte_of_bits_def eq foldl_bits by simp
  also have "\<dots> = w"
  proof -
    have "unat w < 2 ^ 8" using unsigned_less[of w] by simp
    then have "take_bit 8 (unat w) = unat w" by (rule take_bit_nat_eq_self)
    then show ?thesis by simp
  qed
  finally show ?thesis .
qed

lemma parse_bin_map_bit_char:
  "parse_bin (map bit_char bs @ s)
     = (case parse_bin s of Inl e \<Rightarrow> Inl e | Inr cs \<Rightarrow> Inr (bs @ cs))"
  by (induction bs) (auto simp: bit_char_def split: sum.splits)

lemma parse_bin_bin_of_bytes:
  "parse_bin (bin_of_bytes bs) = Inr (concat (map (\<lambda>b. map (bit b) (rev [0..<8])) bs))"
proof (induction bs)
  case Nil show ?case by (simp add: bin_of_bytes_def)
next
  case (Cons b bs)
  have "byte_bin b = map bit_char (map (bit b) (rev [0..<8]))"
    by (simp add: byte_bin_def)
  then have "parse_bin (bin_of_bytes (b # bs))
      = parse_bin (map bit_char (map (bit b) (rev [0..<8])) @ bin_of_bytes bs)"
    by (simp add: bin_of_bytes_def)
  then show ?case
    unfolding parse_bin_map_bit_char using Cons.IH by simp
qed

lemma group8_bytes:
  "group8 (concat (map (\<lambda>b. map (bit b) (rev [0..<8])) bs) @ rest) = bs @ group8 rest"
proof (induction bs)
  case Nil show ?case by simp
next
  case (Cons b bs)
  show ?case
    apply (subst group8.simps)
    using Cons.IH by (simp add: byte_of_bits_bits)
qed

lemma length_bits_of_bytes:
  "length (concat (map (\<lambda>b. map (bit (b::byte)) (rev [0..<8])) bs)) = 8 * length bs"
  by (induction bs) auto

lemma bytes_of_bin_of_bytes: "bytes_of_bin (bin_of_bytes bs) = Inr bs"
proof -
  have "group8 (concat (map (\<lambda>b. map (bit b) (rev [0..<8])) bs)) = bs"
    using group8_bytes[of bs "[]"] by (simp add: group8.simps)
  then show ?thesis
    by (simp add: bytes_of_bin_def parse_bin_bin_of_bytes bits_bytes_def length_bits_of_bytes)
qed

section \<open>Frames: encoding, the pixel rule and the round trip\<close>

lemma foldl_snoc_map: "foldl (\<lambda>bits x. bits @ [f x]) acc xs = acc @ map f xs"
  by (induction xs arbitrary: acc) auto

lemma foldl_append_concat: "foldl (\<lambda>bits y. bits @ g y) acc ys = acc @ concat (map g ys)"
  by (induction ys arbitrary: acc) auto

lemma foldl_rows:
  "foldl (\<lambda>bits y. foldl (\<lambda>bits x. bits @ [f x y]) bits xs) acc ys
     = acc @ concat (map (\<lambda>y. map (\<lambda>x. f x y) xs) ys)"
  by (induction ys arbitrary: acc) (auto simp: foldl_snoc_map)

lemma get_bits_from_image_rows:
  "get_bits_from_image None im
     = concat (map (\<lambda>y. map (\<lambda>x. pixel_bin_rep (px im x y)) [0..<width im]) [0..<height im])"
  by (simp add: get_bits_from_image_def foldl_rows)

lemma rows_row_major:
  "concat (map (\<lambda>y. map (\<lambda>x. F x y) [0..<w]) [0..<h])
     = map (\<lambda>i. F (i mod w) (i div w)) [0..<h * w]"
proof (induction h)
  case 0 show ?case by simp
next
  case (Suc h)
  have a: "[0..<h * w + w] = [0..<h * w] @ [h * w..<h * w + w]"
    by (rule upt_add_eq_append) simp
  have b: "[h * w..<h * w + w] = map (\<lambda>x. x + h * w) [0..<w]"
    unfolding map_add_upt by (simp only: add.commute)
  have c: "map (\<lambda>i. F (i mod w) (i div w)) (map (\<lambda>x. x + h * w) [0..<w])
      = map (\<lambda>x. F x h) [0..<w]"
    by (simp add: o_def)
  have "map (\<lambda>i. F (i mod w) (i div w)) [0..<Suc h * w]
      = map (\<lambda>i. F (i mod w) (i div w)) [0..<h * w] @ map (\<lambda>x. F x h) [0..<w]"
    unfolding mult_Suc add.commute[of w] a b map_append c ..
  then show ?case using Suc.IH by simp
qed

lemma get_bits_from_image_row_major:
  "get_bits_from_image None im
     = map (\<lambda>i. pixel_bin_rep (px im (i mod width im) (i div width im)))
         [0..<height im * width im]"
  unfolding get_bits_from_image_rows by (rule rows_row_major)

lemma closer_to_white_iff: "closer_to_white c \<longleftrightarrow> 128 \<le> c"
  unfolding closer_to_white_def by arith

lemma pixel_bin_rep_closer:
  "pixel_bin_rep (r, g, b)
     = (if closer_to_white r \<and> closer_to_white g \<and> closer_to_white b
        then CHR ''1'' else CHR ''0'')"
  by (simp add: pixel_bin_rep_def closer_to_white_def)

lemma row_major_index:
  assumes "x < w" and "y < h"
  shows "y * w + x < h * (w::nat)"
proof -
  have "y * w + x < y * w + w" using assms(1) by simp
  also have "\<dots> = Suc y * w" by simp
  also have "\<dots> \<le> h * w" using assms(2) by (intro mult_le_mono1) simp
  finally show ?thesis .
qed

lemma map_int_bits:
  "set bits \<subseteq> {CHR ''0'', CHR ''1''} \<Longrightarrow> map_int bits = Inr (map bit_value bits)"
  by (induction bits) (auto simp: py_int_def bit_value_def)

lemma encode_frame_bits:
  assumes "set bits \<subseteq> {CHR ''0'', CHR ''1''}" and "length bits = w * h"
  shows "encode_frame w h bits
           = Inr \<lparr>f_width = w, f_height = h, f_data = map bit_value bits\<rparr>"
proof -
  have "map clip8 (map bit_value bits) = map bit_value bits"
    by (simp add: clip8_def bit_value_def)
  then show ?thesis
    using assms by (simp add: encode_frame_def map_int_bits putdata_def Image_new_def)
qed

lemma pixel_bin_rep_white: "pixel_bin_rep white = CHR ''1''"
  by (simp add: pixel_bin_rep_def white_def)

lemma pixel_bin_rep_black: "pixel_bin_rep black = CHR ''0''"
  by (simp add: pixel_bin_rep_def black_def)

lemma decode_transcoded:
  assumes "set bits \<subseteq> {CHR ''0'', CHR ''1''}" and "length bits = w * h"
  shows "get_bits_from_image None
           (transcoded \<lparr>f_width = w, f_height = h, f_data = map bit_value bits\<rparr>) = bits"
proof (rule nth_equalityI)
  show "length (get_bits_from_image None
           (transcoded \<lparr>f_width = w, f_height = h, f_data = map bit_value bits\<rparr>))
        = length bits"
    using assms by (simp add: get_bits_from_image_row_major transcoded_def mult.commute)
next
  fix i
  assume "i < length (get_bits_from_image None
           (transcoded \<lparr>f_width = w, f_height = h, f_data = map bit_value bits\<rparr>))"
  then have i: "i < w * h"
    by (simp add: get_bits_from_image_row_major transcoded_def mult.commute)
  then have ib: "i < length bits" using assms by simp
  then have "bits ! i = CHR ''0'' \<or> bits ! i = CHR ''1''"
    using assms(1) nth_mem by blast
  then have p: "pixel_bin_rep (if bit_value (bits ! i) \<noteq> 0 then white else black) = bits ! i"
    by (auto simp: bit_value_def pixel_bin_rep_white pixel_bin_rep_black)
  have d: "i div w * w + i mod w = i" by simp
  have "get_bits_from_image None
           (transcoded \<lparr>f_width = w, f_height = h, f_data = map bit_value bits\<rparr>) ! i
      = pixel_bin_rep
          (if map bit_value bits ! (i div w * w + i mod w) \<noteq> 0 then white else black)"
    using i
    by (simp add: get_bits_from_image_row_major transcoded_def mult.commute
          del: div_mult_mod_eq)
  also have "\<dots> = bits ! i"
    unfolding d using ib p by simp
  finally show "get_bits_from_image None
           (transcoded \<lparr>f_width = w, f_height = h, f_data = map bit_value bits\<rparr>) ! i
        = bits ! i" .
qed

text \<open>
  Claim C2 (bit/frame round trip).  A sequence of exactly \<open>w * h\<close> bits is encoded as the
  frame whose pixels are the bits in row-major order; after a lossless transcoding a set
  pixel is pure white and a clear one pure black; and decoding that image gives the bits
  back.
\<close>

theorem frame_roundtrip:
  assumes "length bits = w * h" and "set bits \<subseteq> {CHR ''0'', CHR ''1''}"
  shows "encode_frame w h bits
           = Inr \<lparr>f_width = w, f_height = h, f_data = map bit_value bits\<rparr>
         \<and> get_bits_from_image None
             (transcoded \<lparr>f_width = w, f_height = h, f_data = map bit_value bits\<rparr>) = bits
         \<and> (x < w \<and> y < h \<longrightarrow>
              px (transcoded \<lparr>f_width = w, f_height = h, f_data = map bit_value bits\<rparr>) x y
                = (if bits ! (y * w + x) = CHR ''1'' then white else black))"
proof (intro conjI impI)
  show "encode_frame w h bits
           = Inr \<lparr>f_width = w, f_height = h, f_data = map bit_value bits\<rparr>"
    using assms by (intro encode_frame_bits)
  show "get_bits_from_image None
          (transcoded \<lparr>f_width = w, f_height = h, f_data = map bit_value bits\<rparr>) = bits"
    using assms by (intro decode_transcoded)
next
  assume "x < w \<and> y < h"
  then have "y * w + x < h * w" by (intro row_major_index) simp_all
  then have "y * w + x < length bits" using assms(1) by (simp add: mult.commute)
  then show "px (transcoded \<lparr>f_width = w, f_height = h, f_data = map bit_value bits\<rparr>) x y
                = (if bits ! (y * w + x) = CHR ''1'' then white else black)"
    by (simp add: transcoded_def bit_value_def)
qed

theorem frame_roundtrip_witness:
  "encode_frame 2 2 ''1001''
     = Inr \<lparr>f_width = 2, f_height = 2, f_data = [1, 0, 0, 1]\<rparr>
   \<and> get_bits_from_image None
       (transcoded \<lparr>f_width = 2, f_height = 2, f_data = [1, 0, 0, 1]\<rparr>) = ''1001''
   \<and> px (transcoded \<lparr>f_width = 2, f_height = 2, f_data = [1, 0, 0, 1]\<rparr>) 1 1 = white"
  using frame_roundtrip[of "''1001''" 2 2 1 1] by (simp add: bit_value_def)

text \<open>
  Claim C6 (pixel classification rule).  The decoder emits one bit per pixel, row by row;
  the bit of the pixel at \<open>(x, y)\<close> is 1 exactly when each of its three channels is closer
  to 255 than to 0, and 0 otherwise.
\<close>

theorem pixel_classification:
  assumes "x < width im" and "y < height im"
  shows "length (get_bits_from_image None im) = width im * height im
         \<and> get_bits_from_image None im ! (y * width im + x)
             = (case px im x y of (r, g, b) \<Rightarrow>
                  if closer_to_white r \<and> closer_to_white g \<and> closer_to_white b
                  then CHR ''1'' else CHR ''0'')"
proof
  show "length (get_bits_from_image None im) = width im * height im"
    by (simp add: get_bits_from_image_row_major mult.commute)
next
  have "y * width im + x < height im * width im"
    using assms by (rule row_major_index)
  then have "get_bits_from_image None im ! (y * width im + x) = pixel_bin_rep (px im x y)"
    using assms(1) by (simp add: get_bits_from_image_row_major)
  then show "get_bits_from_image None im ! (y * width im + x)
        = (case px im x y of (r, g, b) \<Rightarrow>
             if closer_to_white r \<and> closer_to_white g \<and> closer_to_white b
             then CHR ''1'' else CHR ''0'')"
    by (cases "px im x y") (simp add: pixel_bin_rep_closer)
qed

theorem pixel_classification_witness:
  "length (get_bits_from_image None
      \<lparr>width = 2, height = 1,
       px = (\<lambda>x y. if x = 0 then (128, 200, 255) else (255, 127, 255))\<rparr>) = 2
   \<and> get_bits_from_image None
      \<lparr>width = 2, height = 1,
       px = (\<lambda>x y. if x = 0 then (128, 200, 255) else (255, 127, 255))\<rparr> ! 1 = CHR ''0''
   \<and> get_bits_from_image None
      \<lparr>width = 2, height = 1,
       px = (\<lambda>x y. if x = 0 then (128, 200, 255) else (255, 127, 255))\<rparr> ! 0 = CHR ''1''"
  using pixel_classification[of 1 "\<lparr>width = 2, height = 1,
       px = (\<lambda>x y. if x = 0 then (128, 200, 255) else (255, 127, 255))\<rparr>" 0]
    pixel_classification[of 0 "\<lparr>width = 2, height = 1,
       px = (\<lambda>x y. if x = 0 then (128, 200, 255) else (255, 127, 255))\<rparr>" 0]
  by (simp add: closer_to_white_def)

section \<open>Sequencer: splitting, padding and frame order\<close>

lemma ceil_div_step:
  assumes "0 < n" and "i < L"
  shows "(L - i + n - 1) div n = Suc ((L - (i + n) + n - 1) div n)"
proof (cases "i + n \<le> L")
  case True
  define m where "m = L - (i + n) + n - 1"
  have "L - i + n - 1 = m + n" unfolding m_def using True assms by arith
  then have "(L - i + n - 1) div n = (m + n) div n" by (simp only:)
  also have "\<dots> = Suc (m div n)" using assms(1) by simp
  finally show ?thesis unfolding m_def .
next
  case False
  then have a: "L - (i + n) = 0" by simp
  have "n \<le> L - i + n - 1" "L - i + n - 1 < 2 * n" using assms False by simp_all
  then have "(L - i + n - 1) div n = 1"
    by (intro div_nat_eqI) simp_all
  then show ?thesis using a assms by simp
qed

lemma py_range_eq:
  "0 < n \<Longrightarrow> py_range i L n = map (\<lambda>k. i + k * n) [0..<(L - i + n - 1) div n]"
proof (induction i L n rule: py_range.induct)
  case (1 i stop step)
  show ?case
  proof (cases "stop \<le> i")
    case True
    then show ?thesis using 1(2) by (subst py_range.simps) simp
  next
    case False
    then have lt: "i < stop" by simp
    have ih: "py_range (i + step) stop step = map (\<lambda>k. i + step + k * step) [0..<(stop - (i + step) + step - 1) div step]"
      using 1 False by simp
    define m where "m = (stop - (i + step) + step - 1) div step"
    have cnt: "(stop - i + step - 1) div step = Suc m"
      unfolding m_def by (rule ceil_div_step[OF 1(2) lt])
    have "py_range i stop step = i # py_range (i + step) stop step"
      by (subst py_range.simps) (use False 1(2) in simp)
    also have "\<dots> = i # map (\<lambda>k. i + step + k * step) [0..<m]"
      unfolding ih m_def ..
    also have "\<dots> = map (\<lambda>k. i + k * step) [0..<Suc m]"
      by (simp add: map_upt_Suc del: upt_Suc)
    finally show ?thesis unfolding cnt .
  qed
qed


lemma frame_count_ceiling: "0 < n \<Longrightarrow> int (frame_count L n) = \<lceil>real L / real n\<rceil>"
proof -
  assume n: "0 < n"
  have "\<lceil>real L / real n\<rceil> = \<lceil>real_of_int (int L) / real_of_int (int n)\<rceil>" by simp
  also have "\<dots> = - (- int L div int n)" by (rule ceiling_divide_eq_div)
  also have "\<dots> = (int L + int n - 1) div int n"
  proof -
    have e: "int n * (- int L div int n) + (- int L mod int n) = - int L"
      by (rule mult_div_mod_eq)
    have "int L + int n - 1 = int n * (- (- int L div int n)) + (int n - 1 - (- int L mod int n))"
      using e by (simp add: algebra_simps)
    moreover have "0 \<le> int n - 1 - (- int L mod int n)"
    proof -
      have "- int L mod int n < int n" using n by (intro pos_mod_bound) simp
      then show ?thesis by simp
    qed
    moreover have "int n - 1 - (- int L mod int n) < int n"
    proof -
      have "0 \<le> - int L mod int n" using n by (intro pos_mod_sign) simp
      then show ?thesis by simp
    qed
    ultimately have "(int L + int n - 1) div int n = - (- int L div int n)"
      by (rule int_div_pos_eq)
    then show ?thesis by simp
  qed
  also have "\<dots> = int ((L + n - 1) div n)"
    using n by (simp add: zdiv_int of_nat_diff)
  finally show ?thesis by (simp add: frame_count_def)
qed

lemma split_string_by_n_eq:
  "0 < n \<Longrightarrow> split_string_by_n bits n = Inr (map (chunk bits n) [0..<frame_count (length bits) n])"
proof -
  assume n: "0 < n"
  have "py_slice bits (k * n) (k * n + n) = chunk bits n k" for k
    by (simp add: py_slice_def chunk_def min_def) 
  then show ?thesis using n
    by (simp add: split_string_by_n_def py_range_eq frame_count_def o_def)
qed

lemma save_frames_rev:
  assumes "\<And>c. c \<in> set chunks \<Longrightarrow> encode_frame w h c = Inr (F c)"
  shows "save_frames w h (rev chunks) index
           = (map (\<lambda>k. (encoded_frame_path (index + k), F (chunks ! k))) [0..<length chunks], None)"
  using assms
proof (induction chunks arbitrary: index)
  case Nil
  show ?case by (subst save_frames.simps) simp
next
  case (Cons c cs)
  have ih: "save_frames w h (rev cs) (index + 1)
           = (map (\<lambda>k. (encoded_frame_path (index + 1 + k), F (cs ! k))) [0..<length cs], None)"
    by (rule Cons.IH) (simp add: Cons.prems)
  have c: "encode_frame w h c = Inr (F c)" by (simp add: Cons.prems)
  have "save_frames w h (rev (c # cs)) index
      = ((encoded_frame_path index, F c) # map (\<lambda>k. (encoded_frame_path (index + 1 + k), F (cs ! k))) [0..<length cs], None)"
    by (subst save_frames.simps) (use c ih in simp)
  also have "(encoded_frame_path index, F c) # map (\<lambda>k. (encoded_frame_path (index + 1 + k), F (cs ! k))) [0..<length cs]
      = map (\<lambda>k. (encoded_frame_path (index + k), F ((c # cs) ! k))) [0..<length (c # cs)]"
    by (simp add: map_upt_Suc del: upt_Suc)
  finally show ?case .
qed


lemma frame_count_pos: "0 < n \<Longrightarrow> 0 < L \<Longrightarrow> 0 < frame_count L n"
  by (simp add: frame_count_def div_greater_zero_iff)

lemma inner_chunk_full:
  assumes n: "0 < n" and i: "Suc i < frame_count L n"
  shows "Suc i * n < L"
proof (rule ccontr)
  assume "\<not> Suc i * n < L"
  then have "L + n - 1 < Suc (Suc i) * n" using n by simp
  then have "(L + n - 1) div n < Suc (Suc i)" by (rule less_mult_imp_div_less)
  then show False using i by (simp add: frame_count_def)
qed

lemma length_chunk_inner:
  assumes "0 < n" and "Suc i < frame_count (length bits) n"
  shows "length (chunk bits n i) = n"
proof -
  have "Suc i * n < length bits" using assms by (rule inner_chunk_full)
  then show ?thesis by (auto simp: chunk_def py_slice_def min_def)
qed

lemma length_chunk_le: "length (chunk bits n i) \<le> n"
  by (auto simp: chunk_def py_slice_def min_def)

lemma length_padded: "length (padded bits n i) = n"
  using length_chunk_le[of bits n i] by (simp add: padded_def)

lemma set_chunk: "set (chunk bits n i) \<subseteq> set bits"
  unfolding chunk_def py_slice_def
  by (meson set_take_subset set_drop_subset subset_trans)

lemma set_padded: "set bits \<subseteq> {CHR ''0'', CHR ''1''} \<Longrightarrow> set (padded bits n i) \<subseteq> {CHR ''0'', CHR ''1''}"
  using set_chunk[of bits n i] by (auto simp: padded_def)

lemma pad_last_chunks:
  assumes n: "0 < n" and c: "0 < c" and c_def: "c = frame_count (length bits) n"
  shows "(map (chunk bits n) [0..<c])[c - 1 :=
            last (map (chunk bits n) [0..<c]) @ replicate (n - length (last (map (chunk bits n) [0..<c]))) CHR ''0'']
         = map (padded bits n) [0..<c]"
proof (rule nth_equalityI)
  show "length ((map (chunk bits n) [0..<c])[c - 1 :=
            last (map (chunk bits n) [0..<c]) @ replicate (n - length (last (map (chunk bits n) [0..<c]))) CHR ''0''])
        = length (map (padded bits n) [0..<c])" by simp
next
  fix i assume "i < length ((map (chunk bits n) [0..<c])[c - 1 :=
            last (map (chunk bits n) [0..<c]) @ replicate (n - length (last (map (chunk bits n) [0..<c]))) CHR ''0''])"
  then have i: "i < c" by simp
  have l: "last (map (chunk bits n) [0..<c]) = chunk bits n (c - 1)"
    using c by (simp add: last_map last_upt)
  show "(map (chunk bits n) [0..<c])[c - 1 :=
            last (map (chunk bits n) [0..<c]) @ replicate (n - length (last (map (chunk bits n) [0..<c]))) CHR ''0''] ! i
        = map (padded bits n) [0..<c] ! i"
  proof (cases "i = c - 1")
    case True
    then show ?thesis using i unfolding l by (simp add: padded_def)
  next
    case False
    then have "Suc i < frame_count (length bits) n" using i c_def by simp
    then have "length (chunk bits n i) = n" using n by (intro length_chunk_inner)
    then show ?thesis using i False unfolding l by (simp add: padded_def)
  qed
qed

lemma make_image_sequence_saved:
  assumes "bits \<noteq> []" and "set bits \<subseteq> {CHR ''0'', CHR ''1''}" and "0 < w * h"
  shows "make_image_sequence bits (w, h)
           = (map (\<lambda>i. (encoded_frame_path (Suc i),
                        \<lparr>f_width = w, f_height = h,
                         f_data = map bit_value (padded bits (w * h) i)\<rparr>))
                [0..<frame_count (length bits) (w * h)], None)"
proof -
  define n where "n = w * h"
  define c where "c = frame_count (length bits) n"
  have n: "0 < n" using assms(3) n_def by simp
  have c: "0 < c" unfolding c_def using n assms(1) by (intro frame_count_pos) simp_all
  have split: "split_string_by_n bits n = Inr (map (chunk bits n) [0..<c])"
    unfolding c_def using n by (rule split_string_by_n_eq)
  have ne: "map (chunk bits n) [0..<c] \<noteq> []" using c by simp
  have enc: "encode_frame w h x = Inr \<lparr>f_width = w, f_height = h, f_data = map bit_value x\<rparr>"
    if "x \<in> set (map (padded bits n) [0..<c])" for x
  proof -
    from that obtain i where "x = padded bits n i" by auto
    then show ?thesis
      using set_padded[OF assms(2), of n i] length_padded[of bits n i] n_def
      by (intro encode_frame_bits) simp_all
  qed
  have "make_image_sequence bits (w, h)
      = save_frames w h (rev (map (padded bits n) [0..<c])) 1"
    using ne pad_last_chunks[OF n c c_def]
    by (simp add: make_image_sequence_def n_def[symmetric] split Let_def)
  also have "\<dots> = (map (\<lambda>k. (encoded_frame_path (1 + k),
        \<lparr>f_width = w, f_height = h,
         f_data = map bit_value (map (padded bits n) [0..<c] ! k)\<rparr>))
        [0..<length (map (padded bits n) [0..<c])], None)"
    by (rule save_frames_rev) (rule enc)
  also have "\<dots> = (map (\<lambda>i. (encoded_frame_path (Suc i),
                        \<lparr>f_width = w, f_height = h,
                         f_data = map bit_value (padded bits n i)\<rparr>))
                [0..<c], None)"
    by simp
  finally show ?thesis
    unfolding c_def n_def .
qed

text \<open>
  Claim C4 (sequencer, encoding).  For a non-empty bitstream of \<open>L\<close> bits and frames of
  \<open>n = w * h > 0\<close> pixels, \<open>make_image_sequence\<close> saves, without raising, exactly
  \<open>ceil (L / n)\<close> frames; the frame saved at position \<open>i\<close> (from 0) is named with the
  index \<open>i + 1\<close> and holds the slice of the bitstream from \<open>i * n\<close> up to
  \<open>min ((i + 1) * n) L\<close>, followed by zero bits up to \<open>n\<close> bits; every chunk but the last
  is already \<open>n\<close> bits long, so only the last is extended.
\<close>

theorem make_image_sequence_frames:
  assumes "bits \<noteq> []" and "set bits \<subseteq> {CHR ''0'', CHR ''1''}" and "0 < w * h"
  shows "make_image_sequence bits (w, h)
           = (map (\<lambda>i. (encoded_frame_path (Suc i),
                        \<lparr>f_width = w, f_height = h,
                         f_data = map bit_value (padded bits (w * h) i)\<rparr>))
                [0..<frame_count (length bits) (w * h)], None)
         \<and> int (frame_count (length bits) (w * h)) = \<lceil>real (length bits) / real (w * h)\<rceil>
         \<and> (Suc i < frame_count (length bits) (w * h) \<longrightarrow>
               padded bits (w * h) i = chunk bits (w * h) i)
         \<and> length (padded bits (w * h) i) = w * h"
proof (intro conjI impI)
  show "make_image_sequence bits (w, h)
           = (map (\<lambda>i. (encoded_frame_path (Suc i),
                        \<lparr>f_width = w, f_height = h,
                         f_data = map bit_value (padded bits (w * h) i)\<rparr>))
                [0..<frame_count (length bits) (w * h)], None)"
    using assms by (rule make_image_sequence_saved)
next
  show "int (frame_count (length bits) (w * h)) = \<lceil>real (length bits) / real (w * h)\<rceil>"
    using assms(3) by (rule frame_count_ceiling)
next
  assume "Suc i < frame_count (length bits) (w * h)"
  then have "length (chunk bits (w * h) i) = w * h"
    using assms(3) by (intro length_chunk_inner)
  then show "padded bits (w * h) i = chunk bits (w * h) i"
    by (simp add: padded_def)
next
  show "length (padded bits (w * h) i) = w * h" by (rule length_padded)
qed

lemma encoded_frame_path_1_2:
  "encoded_frame_path (Suc 0) = ''./fvid_frames/encoded_frames_1.png''"
  "encoded_frame_path (Suc (Suc 0)) = ''./fvid_frames/encoded_frames_2.png''"
  by code_simp+

theorem make_image_sequence_frames_witness:
  "make_image_sequence ''10110'' (2, 2)
     = ([(''./fvid_frames/encoded_frames_1.png'',
          \<lparr>f_width = 2, f_height = 2, f_data = [1, 0, 1, 1]\<rparr>),
         (''./fvid_frames/encoded_frames_2.png'',
          \<lparr>f_width = 2, f_height = 2, f_data = [0, 0, 0, 0]\<rparr>)], None)
   \<and> \<lceil>real (length ''10110'') / real (2 * 2 :: nat)\<rceil> = 2"
  using make_image_sequence_frames[of "''10110''" 2 2 0]
  by (simp add: frame_count_def padded_def chunk_def py_slice_def bit_value_def
        encoded_frame_path_1_2 upt_rec numeral_3_eq_3)

section \<open>Sequencer: the order of the decoded frames\<close>

lemma get_bits_from_video_concat:
  assumes "get_bits_from_video L cy framerate video_filepath w = (Inr bits, w')"
  shows "bits = concat (map (\<lambda>f. get_bits_from_image cy (ff_image f))
                         (sort_key ff_mtime (decoded_frames w')))"
proof -
  have m: "map (\<lambda>index. get_bits_from_image cy (map ff_image (sort_key ff_mtime fs) ! index))
          [0..<length fs]
      = map (\<lambda>f. get_bits_from_image cy (ff_image f)) (sort_key ff_mtime fs)"
    for fs :: "frame_file list"
    by (rule nth_equalityI) simp_all
  define w2 where "w2 = os_system L extract_command
      (os_system L (reencode_command video_filepath framerate) w)"
  have r: "get_bits_from_video L cy framerate video_filepath w
      = (if files w2 TEMPVIDEO = None then (Inl FileNotFoundError, w2)
         else (Inr (concat (map (\<lambda>f. get_bits_from_image cy (ff_image f))
                   (sort_key ff_mtime (decoded_frames w2)))),
               w2\<lparr>files := (files w2)(TEMPVIDEO := None)\<rparr>))"
    unfolding get_bits_from_video_def w2_def Let_def
    by (simp add: foldl_append_concat m)
  show ?thesis
    using assms unfolding r by (auto split: if_splits)
qed

lemma sort_key_mtime_index:
  fixes listing :: "frame_file list"
  assumes d: "distinct (map ff_index listing)"
    and m: "\<And>f g. f \<in> set listing \<Longrightarrow> g \<in> set listing \<Longrightarrow> ff_index f < ff_index g \<Longrightarrow> ff_mtime f < ff_mtime g"
  shows "sort_key ff_mtime listing = sort_key ff_index listing"
proof (rule properties_for_sort_key)
  show "mset (sort_key ff_index listing) = mset listing" by simp
next
  have inj: "f = g" if "f \<in> set listing" "g \<in> set listing" "ff_mtime f = ff_mtime g" for f g
  proof -
    have "\<not> ff_index f < ff_index g" "\<not> ff_index g < ff_index f"
      using m[of f g] m[of g f] that by auto
    then have "ff_index f = ff_index g" by simp
    then show ?thesis using d that(1,2) by (meson distinct_map inj_onD)
  qed
  have dl: "distinct listing" using d by (simp add: distinct_map)
  fix k assume k: "k \<in> set (sort_key ff_index listing)"
  then have kl: "k \<in> set listing" by simp
  have f: "filter (\<lambda>x. ff_mtime k = ff_mtime x) zs = filter (\<lambda>x. k = x) zs" if "set zs \<subseteq> set listing" for zs
    by (rule filter_cong) (use that kl inj in auto)
  have g: "filter (\<lambda>x. k = x) zs = [k]" if "distinct zs" "k \<in> set zs" for zs :: "frame_file list"
    using that by (induction zs) (auto simp: filter_empty_conv)
  show "filter (\<lambda>x. ff_mtime k = ff_mtime x) (sort_key ff_index listing)
      = filter (\<lambda>x. ff_mtime k = ff_mtime x) listing"
    using f[of listing] f[of "sort_key ff_index listing"] g[of listing] g[of "sort_key ff_index listing"] dl k kl
    by simp
next
  have s: "sorted (map ff_index (sort_key ff_index listing))" by simp
  have "sorted_wrt (\<lambda>f g. ff_mtime f \<le> ff_mtime g) (sort_key ff_index listing)"
  proof -
    have "sorted_wrt (\<lambda>f g. ff_index f < ff_index g) (sort_key ff_index listing)"
    proof -
      have "distinct (map ff_index (sort_key ff_index listing))"
      proof -
        have "mset (map ff_index (sort_key ff_index listing)) = mset (map ff_index listing)" by simp
        then show ?thesis using d by (metis mset_eq_imp_distinct_iff)
      qed
      with s have "sorted_wrt (<) (map ff_index (sort_key ff_index listing))"
        unfolding strict_sorted_iff by (rule conjI)
      then show ?thesis by (simp add: sorted_wrt_map)
    qed
    then show ?thesis
      by (rule sorted_wrt_mono_rel[rotated]) (use m in \<open>auto simp: less_imp_le\<close>)
  qed
  then show "sorted (map ff_mtime (sort_key ff_index listing))"
    by (simp add: sorted_wrt_map)
qed



lemma get_bits_white_black:
  "get_bits_from_image None white_image = ''1''"
  "get_bits_from_image None black_image = ''0''"
  by (simp_all add: get_bits_from_image_rows white_image_def black_image_def
        pixel_bin_rep_white pixel_bin_rep_black)

lemma get_bits_from_video_toy:
  "get_bits_from_video toy_lib cy framerate video (demux_world fs)
     = (Inr (concat (map (\<lambda>f. get_bits_from_image cy (ff_image f)) (sort_key ff_mtime fs))),
        (demux_world fs)\<lparr>files := Map.empty,
           trace := [System (reencode_command video framerate), System extract_command]\<rparr>)"
proof -
  have m: "map (\<lambda>index. get_bits_from_image cy (map ff_image (sort_key ff_mtime fs) ! index))
          [0..<length fs]
      = map (\<lambda>f. get_bits_from_image cy (ff_image f)) (sort_key ff_mtime fs)"
    by (rule nth_equalityI) simp_all
  show ?thesis
    by (simp add: get_bits_from_video_def Let_def os_system_def toy_lib_def demux_world_def
          world0_def foldl_append_concat m)
qed

text \<open>
  Claim C5 (sequencer, decoding), as amended.  The decoder concatenates the bit chunks of
  the frames in the order of their modification times.  When no two frame files share an
  index and the modification times increase strictly with the index, that is the order
  of the frame indices: the frame with the \<open>i\<close>-th smallest index gives the \<open>i\<close>-th chunk.
\<close>

theorem decode_order:
  assumes "get_bits_from_video L cy framerate video_filepath w = (Inr bits, w')"
    and "distinct (map ff_index (decoded_frames w'))"
    and "\<forall>f\<in>set (decoded_frames w'). \<forall>g\<in>set (decoded_frames w').
           ff_index f < ff_index g \<longrightarrow> ff_mtime f < ff_mtime g"
  shows "bits = concat (map (\<lambda>f. get_bits_from_image cy (ff_image f))
                         (sort_key ff_index (decoded_frames w')))"
proof -
  have "sort_key ff_mtime (decoded_frames w') = sort_key ff_index (decoded_frames w')"
    using assms(2) by (rule sort_key_mtime_index) (use assms(3) in blast)
  then show ?thesis
    using get_bits_from_video_concat[OF assms(1)] by simp
qed

theorem decode_order_witness:
  "fst (get_bits_from_video toy_lib None ''1'' ''v.mp4''
      (demux_world [\<lparr>ff_index = 2, ff_mtime = 7, ff_image = white_image\<rparr>,
                    \<lparr>ff_index = 1, ff_mtime = 5, ff_image = black_image\<rparr>])) = Inr ''01''"
proof -
  let ?fs = "[\<lparr>ff_index = 2, ff_mtime = 7, ff_image = white_image\<rparr>,
              \<lparr>ff_index = 1, ff_mtime = 5, ff_image = black_image\<rparr>]"
  let ?w' = "(demux_world ?fs)\<lparr>files := Map.empty,
           trace := [System (reencode_command ''v.mp4'' ''1''), System extract_command]\<rparr>"
  have run: "get_bits_from_video toy_lib None ''1'' ''v.mp4'' (demux_world ?fs)
      = (Inr (concat (map (\<lambda>f. get_bits_from_image None (ff_image f)) (sort_key ff_mtime ?fs))), ?w')"
    by (rule get_bits_from_video_toy)
  have d: "distinct (map ff_index (decoded_frames ?w'))"
    by (simp add: demux_world_def)
  have m: "\<forall>f\<in>set (decoded_frames ?w'). \<forall>g\<in>set (decoded_frames ?w').
           ff_index f < ff_index g \<longrightarrow> ff_mtime f < ff_mtime g"
    by (simp add: demux_world_def)
  show ?thesis
    using decode_order[OF run d m] run
    by (simp add: demux_world_def get_bits_white_black)
qed

text \<open>
  Two frames written within one tick of the clock and listed by \<open>glob\<close> with the second
  frame first are decoded in the listed order, not in the order of their indices.
\<close>

theorem decode_order_counterexample:
  "fst (get_bits_from_video toy_lib None ''1'' ''v.mp4''
      (demux_world [\<lparr>ff_index = 2, ff_mtime = 5, ff_image = white_image\<rparr>,
                    \<lparr>ff_index = 1, ff_mtime = 5, ff_image = black_image\<rparr>])) = Inr ''10''
   \<and> concat (map (\<lambda>f. get_bits_from_image None (ff_image f))
        (sort_key ff_index [\<lparr>ff_index = 2, ff_mtime = 5, ff_image = white_image\<rparr>,
                            \<lparr>ff_index = 1, ff_mtime = 5, ff_image = black_image\<rparr>])) = ''01''"
  by (simp add: get_bits_from_video_toy get_bits_white_black)


section \<open>The small library meets the contracts\<close>

lemma takeWhile_marks:
  "takeWhile (\<lambda>c. c = CHR ''x'') (replicate n CHR ''x'' @ CHR ''|'' # r) = replicate n CHR ''x''"
  by (induction n) simp_all

lemma toy_dec_enc: "toy_dec (toy_enc s @ rest) = (s, rest)"
proof -
  have "takeWhile (\<lambda>c. c = CHR ''x'') (replicate (length s) CHR ''x'' @ CHR ''|'' # s @ rest)
      = replicate (length s) CHR ''x''"
    by (rule takeWhile_marks)
  then show ?thesis
    by (simp add: toy_dec_def toy_enc_def Let_def)
qed

lemma toy_json_roundtrip:
  "toy_json_loads (toy_json_dumps (container_record t d f)) = Some (container_record t d f)"
proof -
  have "toy_json_dumps (container_record t d f)
      = toy_enc ''tag'' @ toy_enc t @ toy_enc ''data'' @ toy_enc d @ toy_enc ''filename'' @ toy_enc f @ []"
    by (simp add: toy_json_dumps_def container_record_def)
  then show ?thesis
    by (simp only: toy_json_loads_def toy_dec_enc prod.case container_record_def)
qed

lemma char_byte_char: "char_of (unat (of_nat (of_char c) :: byte)) = c"
proof -
  have "(of_char c :: nat) < 256" by simp
  then have "unat (of_nat (of_char c) :: byte) = of_char c"
    by (simp add: unat_of_nat)
  then show ?thesis by simp
qed

lemma byte_char_byte: "(of_nat (of_char (char_of (unat (b::byte)))) :: byte) = b"
proof -
  have "unat b < 256" using unsigned_less[of b] by simp
  then have "of_char (char_of (unat b)) = unat b"
    by simp
  then show ?thesis by (simp only: of_nat_unat ucast_id)
qed

lemma toy_lib_ok: "lib_ok toy_lib"
  unfolding lib_ok_def
proof (intro conjI allI)
  fix key nonce pt
  show "eax_decrypt toy_lib key nonce (fst (eax_encrypt_and_digest toy_lib key nonce pt)) = pt"
    by (simp add: toy_lib_def o_def)
  show "eax_verify toy_lib key nonce (fst (eax_encrypt_and_digest toy_lib key nonce pt))
              (snd (eax_encrypt_and_digest toy_lib key nonce pt))"
    by (simp add: toy_lib_def)
next
  fix t x show "gzip_decompress toy_lib (gzip_compress toy_lib t x) = Some x"
    by (simp add: toy_lib_def toy_gunzip_def)
next
  fix s show "utf8_decode toy_lib (utf8_encode toy_lib s) = Some s"
    by (simp add: toy_lib_def ascii_def o_def char_byte_char)
next
  fix t d f
  show "json_loads toy_lib (json_dumps toy_lib (container_record t d f)) = Some (container_record t d f)"
    by (simp add: toy_lib_def toy_json_roundtrip)
next
  fix b show "b64decode toy_lib (b64encode toy_lib b) = Some b"
    by (simp add: toy_lib_def ascii_def o_def byte_char_byte del: of_char_of)
next
  fix salt iterations len pw
  show "length (pbkdf2_hmac toy_lib salt iterations len pw) = len"
    by (simp add: toy_lib_def)
qed


section \<open>Container codec: building and opening\<close>

lemma length_DEFAULT_KEY: "length DEFAULT_KEY = 32"
  by (simp add: DEFAULT_KEY_def ascii_def)

lemma aes_key_ok_DEFAULT_KEY: "aes_key_ok DEFAULT_KEY"
  by (simp add: aes_key_ok_def length_DEFAULT_KEY)

lemma fst_get_password_Some: "fst (get_password L (Some P) w) = derived_key L P"
  by (simp add: get_password_def derived_key_def Let_def)

lemma length_get_password:
  assumes "lib_ok L"
  shows "length (fst (get_password L pw w)) = 32"
proof -
  have k: "length (pbkdf2_hmac L SALT 100000 32 x) = 32" for x
    using assms by (simp add: lib_ok_def)
  show ?thesis
    by (cases pw) (simp_all add: get_password_def Let_def k length_DEFAULT_KEY)
qed

lemma aes_key_ok_get_password: "lib_ok L \<Longrightarrow> aes_key_ok (fst (get_password L pw w))"
  by (simp add: aes_key_ok_def length_get_password)

lemma aes_key_ok_derived_key: "lib_ok L \<Longrightarrow> aes_key_ok (derived_key L P)"
  using aes_key_ok_get_password[of L "Some P"] by (simp add: fst_get_password_Some)

lemma get_bits_from_file_built:
  assumes "files w name = Some B" and "aes_key_ok key"
  shows "get_bits_from_file L name key w
     = Inr (bin_of_bytes (gzip_compress L (clock w) (utf8_encode L (json_dumps L
         (container_record (b64encode L (snd (eax_encrypt_and_digest L key SALT B)))
            (b64encode L (fst (eax_encrypt_and_digest L key SALT B))) name)))))"
  using assms
  by (simp add: get_bits_from_file_def container_record_def Let_def split: prod.splits)

lemma parse_container_built:
  assumes "lib_ok L"
  shows "parse_container L (bin_of_bytes (gzip_compress L t (utf8_encode L (json_dumps L
           (container_record (b64encode L tag) (b64encode L ct) name)))))
         = Inr (tag, ct, JStr name)"
proof -
  have g: "gzip_decompress L (gzip_compress L t x) = Some x" for x
    using assms by (simp add: lib_ok_def)
  have u: "utf8_decode L (utf8_encode L x) = Some x" for x
    using assms by (simp add: lib_ok_def)
  have j: "json_loads L (json_dumps L (container_record a b c)) = Some (container_record a b c)"
    for a b c using assms by (simp add: lib_ok_def)
  have b: "b64decode L (b64encode L x) = Some x" for x
    using assms by (simp add: lib_ok_def)
  show ?thesis
    unfolding parse_container_def bytes_of_bin_of_bytes
    by (simp add: g u j) (simp add: container_record_def py_getitem_def py_b64decode_def b)
qed

lemma save_bits_to_file_parsed:
  assumes "parse_container L bits = Inr (tag, ct, fn)" and "aes_key_ok key"
  shows "save_bits_to_file L fp bits key w
     = (if eax_verify L key SALT ct tag
        then open_wb (case fp of None \<Rightarrow> fn | Some p \<Rightarrow> JStr p) (eax_decrypt L key SALT ct)
               (w\<lparr>trace := trace w @ [CipherNew]\<rparr>)
        else (Inl WrongPassword, w\<lparr>trace := trace w @ [CipherNew]\<rparr>))"
  using assms by (simp add: save_bits_to_file_def Let_def)

lemma roundtrip_key:
  assumes "lib_ok L" and "files w name = Some B" and "aes_key_ok key"
  shows "\<exists>bits. get_bits_from_file L name key w = Inr bits
     \<and> parse_container L bits
         = Inr (snd (eax_encrypt_and_digest L key SALT B),
                fst (eax_encrypt_and_digest L key SALT B), JStr name)
     \<and> save_bits_to_file L fp bits key w'
         = (Inr (), w'\<lparr>trace := trace w' @ [CipherNew],
                       files := (files w')((case fp of None \<Rightarrow> name | Some p \<Rightarrow> p) \<mapsto> B)\<rparr>)"
proof -
  let ?ct = "fst (eax_encrypt_and_digest L key SALT B)"
  let ?tag = "snd (eax_encrypt_and_digest L key SALT B)"
  let ?bits = "bin_of_bytes (gzip_compress L (clock w) (utf8_encode L (json_dumps L
         (container_record (b64encode L ?tag) (b64encode L ?ct) name))))"
  have b: "get_bits_from_file L name key w = Inr ?bits"
    using assms(2,3) by (rule get_bits_from_file_built)
  have p: "parse_container L ?bits = Inr (?tag, ?ct, JStr name)"
    using assms(1) by (rule parse_container_built)
  have d: "eax_decrypt L key SALT ?ct = B" and v: "eax_verify L key SALT ?ct ?tag"
    using assms(1) by (simp_all add: lib_ok_def)
  have "save_bits_to_file L fp ?bits key w'
         = (Inr (), w'\<lparr>trace := trace w' @ [CipherNew],
                       files := (files w')((case fp of None \<Rightarrow> name | Some p \<Rightarrow> p) \<mapsto> B)\<rparr>)"
    unfolding save_bits_to_file_parsed[OF p assms(3)]
    using d v by (cases fp) (simp_all add: open_wb_def)
  with b p show ?thesis by blast
qed

text \<open>
  Claim C1 (container round trip).  With libraries that meet their contracts, for every
  file content \<open>B\<close> stored under the path \<open>name\<close> and every password (given, prompted for
  or the default), opening the container built under the derived key with the same key
  succeeds: it writes exactly \<open>B\<close>, to the recorded path \<open>name\<close> when the caller gives no
  output path and to the caller's path otherwise.
\<close>

theorem container_roundtrip:
  assumes "lib_ok L" and "files w name = Some B"
  shows "\<exists>bits. get_bits_from_file L name (fst (get_password L pw w0)) w = Inr bits
     \<and> save_bits_to_file L fp bits (fst (get_password L pw w0)) w'
         = (Inr (), w'\<lparr>trace := trace w' @ [CipherNew],
                       files := (files w')((case fp of None \<Rightarrow> name | Some p \<Rightarrow> p) \<mapsto> B)\<rparr>)"
  using roundtrip_key[OF assms aes_key_ok_get_password[OF assms(1)], of pw w0 fp w'] by blast

theorem container_roundtrip_witness:
  "\<exists>bits. get_bits_from_file toy_lib ''docs/a.txt'' (fst (get_password toy_lib (Some ''secret'') world0))
             (world0\<lparr>files := [''docs/a.txt'' \<mapsto> [72, 105]]\<rparr>) = Inr bits
     \<and> save_bits_to_file toy_lib None bits (fst (get_password toy_lib (Some ''secret'') world0)) world0
         = (Inr (), world0\<lparr>trace := [CipherNew], files := [''docs/a.txt'' \<mapsto> [72, 105]]\<rparr>)"
  using container_roundtrip[OF toy_lib_ok, of "world0\<lparr>files := [''docs/a.txt'' \<mapsto> [72, 105]]\<rparr>"
      "''docs/a.txt''" "[72, 105]" "Some ''secret''" world0 None world0]
  by (simp add: world0_def)

text \<open>
  Claim C9 (the filename field).  The container built for the input path \<open>filepath\<close>
  records that path as supplied, not its base name; and whenever the decoder is given no
  output path, it writes to the recorded filename as it stands.
\<close>

theorem filename_field:
  assumes "lib_ok L" and "files w filepath = Some B" and "aes_key_ok key"
  shows "(\<exists>bits tag ct. get_bits_from_file L filepath key w = Inr bits
            \<and> parse_container L bits = Inr (tag, ct, JStr filepath)
            \<and> save_bits_to_file L None bits key w'
                = (Inr (), w'\<lparr>trace := trace w' @ [CipherNew],
                              files := (files w')(filepath \<mapsto> B)\<rparr>))
         \<and> (parse_container L bits' = Inr (t, c, JStr fn) \<and> eax_verify L key SALT c t \<longrightarrow>
              save_bits_to_file L None bits' key w'
                = (Inr (), w'\<lparr>trace := trace w' @ [CipherNew],
                              files := (files w')(fn \<mapsto> eax_decrypt L key SALT c)\<rparr>))"
proof (intro conjI impI)
  show "\<exists>bits tag ct. get_bits_from_file L filepath key w = Inr bits
            \<and> parse_container L bits = Inr (tag, ct, JStr filepath)
            \<and> save_bits_to_file L None bits key w'
                = (Inr (), w'\<lparr>trace := trace w' @ [CipherNew],
                              files := (files w')(filepath \<mapsto> B)\<rparr>)"
    using roundtrip_key[OF assms, of None w'] by auto
next
  assume "parse_container L bits' = Inr (t, c, JStr fn) \<and> eax_verify L key SALT c t"
  then show "save_bits_to_file L None bits' key w'
                = (Inr (), w'\<lparr>trace := trace w' @ [CipherNew],
                              files := (files w')(fn \<mapsto> eax_decrypt L key SALT c)\<rparr>)"
    using assms(3) by (simp add: save_bits_to_file_parsed open_wb_def)
qed

theorem filename_field_witness:
  "(\<exists>bits tag ct. get_bits_from_file toy_lib ''docs/a.txt'' DEFAULT_KEY
             (world0\<lparr>files := [''docs/a.txt'' \<mapsto> [72, 105]]\<rparr>) = Inr bits
      \<and> parse_container toy_lib bits = Inr (tag, ct, JStr ''docs/a.txt'')
      \<and> save_bits_to_file toy_lib None bits DEFAULT_KEY world0
          = (Inr (), world0\<lparr>trace := [CipherNew], files := [''docs/a.txt'' \<mapsto> [72, 105]]\<rparr>))
   \<and> basename ''docs/a.txt'' = ''a.txt''"
proof
  show "\<exists>bits tag ct. get_bits_from_file toy_lib ''docs/a.txt'' DEFAULT_KEY
             (world0\<lparr>files := [''docs/a.txt'' \<mapsto> [72, 105]]\<rparr>) = Inr bits
      \<and> parse_container toy_lib bits = Inr (tag, ct, JStr ''docs/a.txt'')
      \<and> save_bits_to_file toy_lib None bits DEFAULT_KEY world0
          = (Inr (), world0\<lparr>trace := [CipherNew], files := [''docs/a.txt'' \<mapsto> [72, 105]]\<rparr>)"
    using filename_field[OF toy_lib_ok _ aes_key_ok_DEFAULT_KEY,
        of "world0\<lparr>files := [''docs/a.txt'' \<mapsto> [72, 105]]\<rparr>" "''docs/a.txt''" "[72, 105]" world0]
    by (simp add: world0_def)
  show "basename ''docs/a.txt'' = ''a.txt''"
    by (simp add: basename_def)
qed


section \<open>Container codec: a wrong key\<close>

lemma derived_key_collision:
  assumes "lib_ok L"
  shows "\<exists>P1 P2. P1 \<noteq> P2 \<and> derived_key L P1 = derived_key L P2"
proof -
  have len: "length (derived_key L P) = 32" for P
    using length_get_password[OF assms, of "Some P"] by (simp add: fst_get_password_Some)
  have "finite {k :: bytes. length k = 32}"
    using finite_lists_length_eq[of "UNIV :: byte set" 32] by simp
  moreover have "range (derived_key L) \<subseteq> {k. length k = 32}"
    using len by auto
  ultimately have "finite (range (derived_key L))" by (rule rev_finite_subset)
  moreover have "infinite (UNIV :: string set)" by (rule infinite_UNIV_listI)
  ultimately have "\<not> inj (derived_key L)" using finite_imageD by blast
  then show ?thesis by (auto simp: inj_on_def)
qed

text \<open>
  Claim C3 (wrong-key detection), as amended.  With libraries that meet their contracts,
  whenever the tag check under the key derived from \<open>P2\<close> rejects the ciphertext and tag
  made under the key derived from \<open>P1\<close>, opening the container fails with
  \<open>WrongPassword\<close>, raised after the cipher was constructed and the tag checked, and no
  file is written.
\<close>

theorem wrong_key_rejected:
  assumes "lib_ok L" and "files w name = Some B"
    and "\<not> eax_verify L (derived_key L P2) SALT
            (fst (eax_encrypt_and_digest L (derived_key L P1) SALT B))
            (snd (eax_encrypt_and_digest L (derived_key L P1) SALT B))"
  shows "\<exists>bits. get_bits_from_file L name (derived_key L P1) w = Inr bits
     \<and> save_bits_to_file L fp bits (derived_key L P2) w'
         = (Inl WrongPassword, w'\<lparr>trace := trace w' @ [CipherNew]\<rparr>)
     \<and> files (snd (save_bits_to_file L fp bits (derived_key L P2) w')) = files w'"
proof -
  obtain bits where b: "get_bits_from_file L name (derived_key L P1) w = Inr bits"
    and p: "parse_container L bits
         = Inr (snd (eax_encrypt_and_digest L (derived_key L P1) SALT B),
                fst (eax_encrypt_and_digest L (derived_key L P1) SALT B), JStr name)"
    using roundtrip_key[OF assms(1,2) aes_key_ok_derived_key[OF assms(1)], of P1] by blast
  have "save_bits_to_file L fp bits (derived_key L P2) w'
         = (Inl WrongPassword, w'\<lparr>trace := trace w' @ [CipherNew]\<rparr>)"
    unfolding save_bits_to_file_parsed[OF p aes_key_ok_derived_key[OF assms(1)]]
    using assms(3) by simp
  with b show ?thesis by simp
qed

lemma toy_derived_keys:
  "derived_key toy_lib ''a'' = 97 # replicate 31 0"
  "derived_key toy_lib ''b'' = 98 # replicate 31 0"
  by (simp_all add: derived_key_def toy_lib_def ascii_def)

theorem wrong_key_rejected_witness:
  "\<exists>bits. get_bits_from_file toy_lib ''f'' (derived_key toy_lib ''a'')
             (world0\<lparr>files := [''f'' \<mapsto> [1, 2]]\<rparr>) = Inr bits
     \<and> save_bits_to_file toy_lib None bits (derived_key toy_lib ''b'') world0
         = (Inl WrongPassword, world0\<lparr>trace := [CipherNew]\<rparr>)
     \<and> files (snd (save_bits_to_file toy_lib None bits (derived_key toy_lib ''b'') world0))
         = Map.empty"
proof -
  have v: "\<not> eax_verify toy_lib (derived_key toy_lib ''b'') SALT
            (fst (eax_encrypt_and_digest toy_lib (derived_key toy_lib ''a'') SALT [1, 2]))
            (snd (eax_encrypt_and_digest toy_lib (derived_key toy_lib ''a'') SALT [1, 2]))"
    unfolding toy_derived_keys by (simp add: toy_lib_def)
  have f: "files (world0\<lparr>files := [''f'' \<mapsto> [1, 2]]\<rparr>) ''f'' = Some [1, 2]" by simp
  show ?thesis
    using wrong_key_rejected[OF toy_lib_ok f v, of None world0]
    by (simp add: world0_def)
qed

text \<open>
  Keys have 32 bytes and passwords are unbounded, so two different passwords derive the
  same key whatever the key derivation is; the container built under one opens under
  the other.  No library that meets the contracts makes every pair of different
  passwords fail.
\<close>

theorem wrong_key_counterexample:
  "\<not> (\<exists>L. lib_ok L \<and>
        (\<forall>P1 P2 B. P1 \<noteq> P2 \<longrightarrow>
           (\<exists>bits. get_bits_from_file L ''f'' (derived_key L P1)
                      (world0\<lparr>files := [''f'' \<mapsto> B]\<rparr>) = Inr bits
                \<and> fst (save_bits_to_file L None bits (derived_key L P2) world0)
                    = Inl WrongPassword)))"
proof
  assume "\<exists>L. lib_ok L \<and>
        (\<forall>P1 P2 B. P1 \<noteq> P2 \<longrightarrow>
           (\<exists>bits. get_bits_from_file L ''f'' (derived_key L P1)
                      (world0\<lparr>files := [''f'' \<mapsto> B]\<rparr>) = Inr bits
                \<and> fst (save_bits_to_file L None bits (derived_key L P2) world0)
                    = Inl WrongPassword))"
  then obtain L where ok: "lib_ok L"
    and all: "\<And>P1 P2 B. P1 \<noteq> P2 \<Longrightarrow>
           \<exists>bits. get_bits_from_file L ''f'' (derived_key L P1)
                      (world0\<lparr>files := [''f'' \<mapsto> B]\<rparr>) = Inr bits
                \<and> fst (save_bits_to_file L None bits (derived_key L P2) world0)
                    = Inl WrongPassword"
    by blast
  obtain P1 P2 where ne: "P1 \<noteq> P2" and eq: "derived_key L P1 = derived_key L P2"
    using derived_key_collision[OF ok] by blast
  obtain bits where b: "get_bits_from_file L ''f'' (derived_key L P1)
                      (world0\<lparr>files := [''f'' \<mapsto> []]\<rparr>) = Inr bits"
    and wp: "fst (save_bits_to_file L None bits (derived_key L P2) world0) = Inl WrongPassword"
    using all[OF ne, of "[]"] by blast
  have f: "files (world0\<lparr>files := [''f'' \<mapsto> []]\<rparr>) ''f'' = Some []" by simp
  obtain bits' where b': "get_bits_from_file L ''f'' (derived_key L P1)
                      (world0\<lparr>files := [''f'' \<mapsto> []]\<rparr>) = Inr bits'"
    and s: "fst (save_bits_to_file L None bits' (derived_key L P1) world0) = Inr ()"
    using roundtrip_key[OF ok f aes_key_ok_derived_key[OF ok], of P1 None world0] by auto
  from b b' have "bits' = bits" by simp
  with s wp eq show False by simp
qed

section \<open>Container codec: malformed containers\<close>

lemma field_checks_imply_parse_fails:
  assumes "\<not> (field_is_string data ''tag'' \<and> field_is_string data ''data''
             \<and> field_present data ''filename'')"
  shows "\<exists>e. e \<noteq> WrongPassword \<and>
     (case py_getitem data ''tag'' of
        Inl e \<Rightarrow> Inl e
      | Inr t \<Rightarrow>
     (case py_b64decode L t of
        Inl e \<Rightarrow> Inl e
      | Inr tag \<Rightarrow>
     (case py_getitem data ''data'' of
        Inl e \<Rightarrow> Inl e
      | Inr d \<Rightarrow>
     (case py_b64decode L d of
        Inl e \<Rightarrow> Inl e
      | Inr ciphertext \<Rightarrow>
     (case py_getitem data ''filename'' of
        Inl e \<Rightarrow> Inl e
      | Inr filename \<Rightarrow> Inr (tag, ciphertext, filename)))))) = Inl e"
  using assms
  by (auto simp: field_is_string_def field_present_def py_getitem_def py_b64decode_def
      split: sum.splits json.splits option.splits)

lemma unreadable_parse_fails:
  assumes "bytes_of_bin bits = Inr raw" and "unreadable_container L raw"
  shows "\<exists>e. e \<noteq> WrongPassword \<and> parse_container L bits = Inl e"
proof (cases "gzip_decompress L raw")
  case None
  then show ?thesis using assms(1) by (simp add: parse_container_def)
next
  case (Some b)
  show ?thesis
  proof (cases "utf8_decode L b")
    case None
    then show ?thesis using assms(1) Some by (simp add: parse_container_def)
  next
    case (Some str)
    note t = this
    show ?thesis
    proof (cases "json_loads L str")
      case None
      then show ?thesis using assms(1) \<open>gzip_decompress L raw = Some b\<close> t
        by (simp add: parse_container_def)
    next
      case (Some data)
      then have "\<not> (field_is_string data ''tag'' \<and> field_is_string data ''data''
             \<and> field_present data ''filename'')"
        using assms(2) \<open>gzip_decompress L raw = Some b\<close> t
        by (simp add: unreadable_container_def)
      from field_checks_imply_parse_fails[OF this, of L]
      show ?thesis
        using assms(1) \<open>gzip_decompress L raw = Some b\<close> t Some
        by (simp add: parse_container_def)
    qed
  qed
qed

text \<open>
  Claim C7 (malformed containers), as amended.  If decompression fails, or the
  decompressed bytes are not text, or the text does not parse, or the parsed value has
  no \<open>tag\<close> or \<open>data\<close> string or no \<open>filename\<close> field, then opening fails with an
  exception other than \<open>WrongPassword\<close> and leaves the world as it was: the cipher is
  never constructed and no file is written.
\<close>

theorem unreadable_container_rejected:
  assumes "bytes_of_bin bits = Inr raw" and "unreadable_container L raw"
  shows "\<exists>e. e \<noteq> WrongPassword \<and> save_bits_to_file L fp bits key w = (Inl e, w)"
proof -
  obtain e where "e \<noteq> WrongPassword" and "parse_container L bits = Inl e"
    using unreadable_parse_fails[OF assms] by blast
  then show ?thesis by (auto simp: save_bits_to_file_def)
qed

theorem unreadable_container_rejected_witness:
  "\<exists>e. e \<noteq> WrongPassword
      \<and> save_bits_to_file toy_lib None (bin_of_bytes [0]) DEFAULT_KEY world0 = (Inl e, world0)"
proof -
  have u: "unreadable_container toy_lib [0]"
    by (simp add: unreadable_container_def toy_lib_def toy_gunzip_def)
  show ?thesis
    using unreadable_container_rejected[OF bytes_of_bin_of_bytes u] .
qed

text \<open>
  A record whose filename field is a number is mis-typed, yet it is opened: the cipher
  is constructed, the tag verifies and the plaintext is written to the caller's path.
\<close>

theorem malformed_container_counterexample:
  "malformed_container mistyped_lib [31, 139]
   \<and> save_bits_to_file mistyped_lib (Some ''out.bin'') (bin_of_bytes [31, 139]) DEFAULT_KEY world0
       = (Inr (), world0\<lparr>trace := [CipherNew], files := [''out.bin'' \<mapsto> []]\<rparr>)"
proof
  show "malformed_container mistyped_lib [31, 139]"
    by (simp add: malformed_container_def mistyped_lib_def toy_lib_def toy_gunzip_def
          field_is_string_def py_getitem_def)
  have p: "parse_container mistyped_lib (bin_of_bytes [31, 139])
      = Inr (DEFAULT_KEY, [], JInt 5)"
    unfolding parse_container_def bytes_of_bin_of_bytes
    by (simp add: mistyped_lib_def toy_lib_def toy_gunzip_def py_getitem_def py_b64decode_def
          DEFAULT_KEY_def ascii_def)
  show "save_bits_to_file mistyped_lib (Some ''out.bin'') (bin_of_bytes [31, 139]) DEFAULT_KEY world0
       = (Inr (), world0\<lparr>trace := [CipherNew], files := [''out.bin'' \<mapsto> []]\<rparr>)"
    unfolding save_bits_to_file_parsed[OF p aes_key_ok_DEFAULT_KEY]
    by (simp add: mistyped_lib_def toy_lib_def open_wb_def world0_def)
qed

section \<open>The password option\<close>

text \<open>
  Claim C10 (the password option).  When \<open>--password\<close> is left out, the key is the fixed
  default key, 32 space bytes, and nothing is prompted for or derived.  The prompt
  happens exactly when the option is given without a value; a value other than
  \<open>default\<close> is derived without a prompt.
\<close>

theorem password_option_key:
  "get_password L (parse_password Omitted) w = (DEFAULT_KEY, w)
   \<and> DEFAULT_KEY = replicate 32 32
   \<and> trace (snd (get_password L (parse_password opt) w))
       = trace w @ (case opt of
                      Omitted \<Rightarrow> []
                    | NoValue \<Rightarrow> [Prompt, Kdf]
                    | Value s \<Rightarrow> if s = ''default'' then [] else [Kdf])"
  by (cases opt) (simp_all add: get_password_def parse_password_def Let_def DEFAULT_KEY_def ascii_def)

theorem password_option_key_witness:
  "get_password toy_lib (parse_password Omitted) world0 = (DEFAULT_KEY, world0)
   \<and> trace (snd (get_password toy_lib (parse_password NoValue) world0)) = [Prompt, Kdf]
   \<and> trace (snd (get_password toy_lib (parse_password (Value ''pw'')) world0)) = [Kdf]"
  using password_option_key[of toy_lib world0 NoValue]
    password_option_key[of toy_lib world0 "Value ''pw''"]
  by (simp add: world0_def)


section \<open>Framerate validation\<close>

lemma set_bin_of_bytes: "set (bin_of_bytes bs) \<subseteq> {CHR ''0'', CHR ''1''}"
  by (auto simp: bin_of_bytes_def byte_bin_def bit_char_def)

lemma bin_of_bytes_nonempty: "bs \<noteq> [] \<Longrightarrow> bin_of_bytes bs \<noteq> []"
  by (cases bs) (simp_all add: bin_of_bytes_def byte_bin_def)

lemma framerate_examples:
  "\<not> framerate_rejected ''3''" "\<not> framerate_rejected ''1/3''"
  "framerate_rejected ''-1/3''" "framerate_rejected ''abc''" "framerate_rejected ''1/-3''"
  by (simp_all add: framerate_rejected_def isdigit_def)

lemma negative_framerate_rejected:
  assumes "CHR ''-'' \<in> set framerate"
  shows "framerate_rejected framerate"
proof (cases "CHR ''/'' \<in> set framerate")
  case True
  then show ?thesis using assms by (simp add: framerate_rejected_def)
next
  case False
  have "\<not> list_all (\<lambda>c. c \<in> set ''0123456789'') framerate"
  proof
    assume "list_all (\<lambda>c. c \<in> set ''0123456789'') framerate"
    then have "CHR ''-'' \<in> set ''0123456789''"
      using assms unfolding list_all_iff by (rule bspec)
    then show False by simp
  qed
  then have "\<not> isdigit framerate" by (simp add: isdigit_def)
  then show ?thesis using False by (simp add: framerate_rejected_def)
qed

lemma framerate_a_b: "\<not> framerate_rejected ''a/b''"
  by (simp add: framerate_rejected_def isdigit_def)

lemma get_password_world:
  "files (snd (get_password L pw w)) = files w"
  "clock (snd (get_password L pw w)) = clock w"
  "encoded_frames (snd (get_password L pw w)) = encoded_frames w"
  by (cases pw; simp add: get_password_def Let_def)+

lemma rejected_before_frames:
  assumes "a_encode a" and "\<not> a_decode a" and "framerate_rejected (a_framerate a)"
  shows "main L cy a w
           = (Inl NotImplementedError, snd (get_password L (parse_password (a_password a)) w))"
  using assms by (simp add: main_def split: prod.splits)

text \<open>
  Claim C8 (framerate validation), where the code departs from it.  The framerate \<open>a/b\<close>
  is not a number, yet it passes the check: in encode mode, with an input file that
  exists, the run does not raise, saves the frames and ends by running the transcoder
  with \<open>-r a/b\<close>.  (The five framerates the claim names behave as it says, and every
  framerate with a minus sign is rejected before any file is read: see
  \<open>framerate_examples\<close>, \<open>negative_framerate_rejected\<close> and \<open>rejected_before_frames\<close>.)
\<close>

theorem nonnumeric_framerate_accepted:
  assumes "a_encode a" and "\<not> a_decode a" and "a_framerate a = ''a/b''"
    and "lib_ok L" and "files w (a_input a) = Some B"
    and "\<forall>t x. gzip_compress L t x \<noteq> []"
  shows "fst (main L cy a w) = Inr ()
         \<and> last (trace (snd (main L cy a w)))
             = System (mux_command ''a/b''
                 (case truthy (a_output a) of None \<Rightarrow> ''file.mp4'' | Some p \<Rightarrow> p))"
proof -
  obtain key w1 where gp: "get_password L (parse_password (a_password a)) w = (key, w1)"
    by (cases "get_password L (parse_password (a_password a)) w")
  have key: "aes_key_ok key"
    using aes_key_ok_get_password[OF assms(4), of "parse_password (a_password a)" w] gp by simp
  have f1: "files w1 (a_input a) = Some B"
    using get_password_world(1)[of L "parse_password (a_password a)" w] gp assms(5) by simp
  obtain zip where bits: "get_bits_from_file L (a_input a) key w1 = Inr (bin_of_bytes zip)"
    and zip: "zip \<noteq> []"
    using get_bits_from_file_built[OF f1 key, of L] assms(6) by blast
  have frames: "make_image_sequence (bin_of_bytes zip) (1920, 1080)
      = (map (\<lambda>i. (encoded_frame_path (Suc i),
                        \<lparr>f_width = 1920, f_height = 1080,
                         f_data = map bit_value (padded (bin_of_bytes zip) (1920 * 1080) i)\<rparr>))
                [0..<frame_count (length (bin_of_bytes zip)) (1920 * 1080)], None)"
    by (rule make_image_sequence_saved) (simp_all add: bin_of_bytes_nonempty zip set_bin_of_bytes)
  have m: "main L cy a w
      = (Inr (), cleanup (make_video L (truthy (a_output a)) ''a/b''
           (w1\<lparr>encoded_frames := encoded_frames w1 @ fst (make_image_sequence (bin_of_bytes zip) (1920, 1080))\<rparr>)))"
    using assms(1,2,3) framerate_a_b
    by (simp add: main_def gp bits frames Let_def del: make_image_sequence_def)
  show ?thesis
    unfolding m by (simp add: cleanup_def make_video_def os_system_def Let_def)
qed

theorem nonnumeric_framerate_accepted_witness:
  "fst (main toy_lib None
          \<lparr>a_encode = True, a_decode = False, a_input = ''f'', a_output = None,
           a_framerate = ''a/b'', a_password = Omitted\<rparr>
          (world0\<lparr>files := [''f'' \<mapsto> [1]]\<rparr>)) = Inr ()
   \<and> last (trace (snd (main toy_lib None
          \<lparr>a_encode = True, a_decode = False, a_input = ''f'', a_output = None,
           a_framerate = ''a/b'', a_password = Omitted\<rparr>
          (world0\<lparr>files := [''f'' \<mapsto> [1]]\<rparr>))))
       = System ''ffmpeg -r a/b -i ./fvid_frames/encoded_frames_%d.png -c:v libx264rgb file.mp4''"
proof -
  have g: "\<forall>t x. gzip_compress toy_lib t x \<noteq> []" by (simp add: toy_lib_def)
  have f: "files (world0\<lparr>files := [''f'' \<mapsto> [1]]\<rparr>)
             (a_input \<lparr>a_encode = True, a_decode = False, a_input = ''f'', a_output = None,
                a_framerate = ''a/b'', a_password = Omitted\<rparr>) = Some [1]" by simp
  show ?thesis
    using nonnumeric_framerate_accepted[OF _ _ _ toy_lib_ok f g, of None]
    by (simp add: truthy_def mux_command_def)
qed


end
